theory Spec2Isabelle
  imports Complex_Main "HOL-Library.Word" "HOL-Library.AList"
begin

section \<open>Exceptions as values\<close>

text \<open>
  The Python exceptions the modelled code can raise. The repository defines no exception
  class of its own: every failure is one of the interpreter's built-in exceptions
  (or \<open>socket.timeout\<close>, here \<open>Timeout\<close>).
\<close>

datatype error =
    IndexError | OverflowError | ValueError | ZeroDivisionError
  | StopIteration | TypeError | Timeout
  | EncodingError | DecodeError

text \<open>
  \<open>EncodingError\<close> and \<open>DecodeError\<close> are the names the specification's error taxonomy
  uses. They are constructors here so that statements can mention them; no function of the
  source raises them, and so no definition below returns them.
\<close>

fun rbind :: "error + 'a \<Rightarrow> ('a \<Rightarrow> error + 'b) \<Rightarrow> error + 'b" where
  "rbind (Inl e) f = Inl e"
| "rbind (Inr x) f = f x"

section \<open>packet\_builder.py: integers and bytes\<close>

type_synonym byte = "8 word"

text \<open>\<open>int.bit_length()\<close>: the number of bits of the absolute value.\<close>

fun bit_length_nat :: "nat \<Rightarrow> nat" where
  "bit_length_nat n = (if n = 0 then 0 else Suc (bit_length_nat (n div 2)))"

declare bit_length_nat.simps [simp del]

definition bit_length :: "int \<Rightarrow> nat" where
  "bit_length v = bit_length_nat (nat \<bar>v\<bar>)"

text \<open>The \<open>n\<close> low bytes of a non-negative integer, least significant first.\<close>

fun le_bytes :: "nat \<Rightarrow> int \<Rightarrow> byte list" where
  "le_bytes 0 v = []"
| "le_bytes (Suc n) v = word_of_int (v mod 256) # le_bytes n (v div 256)"

text \<open>\<open>num.to_bytes(n, "little")\<close> (unsigned): OverflowError on a negative number and on
  a number that does not fit \<open>n\<close> bytes.\<close>

definition to_bytes :: "int \<Rightarrow> nat \<Rightarrow> error + byte list" where
  "to_bytes num n =
     (if num < 0 then Inl OverflowError
      else if 256 ^ n \<le> num then Inl OverflowError
      else Inr (le_bytes n num))"

text \<open>\<open>int.from_bytes(piece, "little")\<close>.\<close>

fun from_bytes :: "byte list \<Rightarrow> nat" where
  "from_bytes [] = 0"
| "from_bytes (b # bs) = unat b + 256 * from_bytes bs"

text \<open>\<open>tobytes(number) = int(number / 8)\<close>, on the non-negative bit counts it is called with.\<close>

definition tobytes :: "nat \<Rightarrow> nat" where
  "tobytes number = number div 8"

text \<open>\<open>to_bytearray(num, bitlength=8)\<close>: the bytes of \<open>num\<close> as a list of integers.\<close>

definition to_bytearray :: "int \<Rightarrow> nat \<Rightarrow> error + int list" where
  "to_bytearray num bitlength =
     (if bitlength = 0 then Inl ZeroDivisionError
      else rbind (to_bytes num ((bit_length num + bitlength - 1) div bitlength))
             (\<lambda>bs. Inr (map uint bs)))"

text \<open>The number of bytes \<open>to_bytearray\<close> asks \<open>to_bytes\<close> for (a name for the proofs).\<close>

definition nbytes :: "int \<Rightarrow> nat" where
  "nbytes v = (bit_length v + 8 - 1) div 8"

text \<open>
  \<open>packbytes(*pieces)\<close> is \<open>reduce(append, pieces, pieces[0][0])\<close>: the fold starts from
  the value of the first piece and then runs over every piece, the first included.
\<close>

definition append_piece :: "int \<Rightarrow> int \<times> nat \<Rightarrow> int" where
  "append_piece prev new = (case new of (val, len) \<Rightarrow> or (push_bit len prev) val)"

definition packbytes :: "(int \<times> nat) list \<Rightarrow> error + int" where
  "packbytes pieces =
     (case pieces of
        [] \<Rightarrow> Inl IndexError
      | first # _ \<Rightarrow> Inr (foldl append_piece (fst first) pieces))"

section \<open>packet\_builder.py: Parameter, Part and Packet\<close>

record parameter =
  name :: string
  bytes :: "byte list"

datatype pvalues = IntV int | ListV "int list"

text \<open>
  The loop \<open>for i, value in enumerate(values): self[i] = value\<close> on a bytearray: an index
  beyond the buffer raises IndexError, a value outside \<open>range(256)\<close> raises ValueError.
  (Where both fail at the same position the interpreter's version decides which of the
  two is raised; the model checks the index first.)
\<close>

fun store :: "byte list \<Rightarrow> nat \<Rightarrow> int list \<Rightarrow> error + byte list" where
  "store buf i [] = Inr buf"
| "store buf i (v # vs) =
     (if length buf \<le> i then Inl IndexError
      else if v < 0 \<or> 256 \<le> v then Inl ValueError
      else store (buf[i := word_of_int v]) (Suc i) vs)"

text \<open>\<open>Parameter.__init__(name, values, length, reverse)\<close>; \<open>self.zfill(length)\<close> returns
  a copy that is dropped, so it changes nothing.\<close>

definition Parameter :: "string \<Rightarrow> pvalues \<Rightarrow> nat \<Rightarrow> bool \<Rightarrow> error + parameter" where
  "Parameter nm values len reverse =
     (let buf = replicate len (0 :: byte) in
      case values of
        IntV v \<Rightarrow>
          if v = 0 then Inr \<lparr>name = nm, bytes = buf\<rparr>
          else rbind (to_bytearray v 8) (\<lambda>val.
                 let vs = val @ replicate (len - length val) 0;
                     vs = (if reverse then rev vs else vs)
                 in rbind (store buf 0 vs) (\<lambda>b. Inr \<lparr>name = nm, bytes = b\<rparr>))
      | ListV vs \<Rightarrow>
          if vs = [] then Inr \<lparr>name = nm, bytes = buf\<rparr>
          else rbind (store buf 0 vs) (\<lambda>b. Inr \<lparr>name = nm, bytes = b\<rparr>))"

type_synonym part = "parameter list"

definition part_len :: "part \<Rightarrow> nat" where
  "part_len ps = sum_list (map (\<lambda>p. length (bytes p)) ps)"

definition prepend_param :: "part \<Rightarrow> string \<Rightarrow> pvalues \<Rightarrow> nat \<Rightarrow> error + part" where
  "prepend_param ps nm v len = rbind (Parameter nm v len False) (\<lambda>par. Inr (par # ps))"

definition append_param :: "part \<Rightarrow> string \<Rightarrow> pvalues \<Rightarrow> nat \<Rightarrow> error + part" where
  "append_param ps nm v len = rbind (Parameter nm v len False) (\<lambda>par. Inr (ps @ [par]))"

record packet =
  frame :: part
  frame_address :: part
  protocol_header :: part
  payload :: part

definition Packet_init :: packet where
  "Packet_init = \<lparr>frame = [], frame_address = [], protocol_header = [], payload = []\<rparr>"

definition get_parts :: "packet \<Rightarrow> part list" where
  "get_parts p = [frame p, frame_address p, protocol_header p, payload p]"

definition packet_len :: "packet \<Rightarrow> nat" where
  "packet_len p = sum_list (map part_len (get_parts p))"


text \<open>\<open>set_size(length=2)\<close>: prepend a zeroed \<open>size\<close> parameter of \<open>length\<close> bytes, then
  replace it by a 2-byte parameter holding \<open>len(self)\<close> as it is after the prepend.\<close>

definition set_size :: "packet \<Rightarrow> nat \<Rightarrow> error + packet" where
  "set_size p len =
     rbind (prepend_param (frame p) ''size'' (IntV 0) len) (\<lambda>fr.
       let p1 = p\<lparr>frame := fr\<rparr> in
       rbind (Parameter ''size'' (IntV (int (packet_len p1))) 2 False) (\<lambda>par.
         Inr (p1\<lparr>frame := (frame p1)[0 := par]\<rparr>)))"

text \<open>The property \<open>msgtype\<close>: \<open>next(filter(...))\<close> raises StopIteration on no match.\<close>

definition msgtype :: "packet \<Rightarrow> error + int" where
  "msgtype p =
     (case filter (\<lambda>par. name par = ''message type'') (protocol_header p) of
        [] \<Rightarrow> Inl StopIteration
      | par # _ \<Rightarrow> Inr (int (from_bytes (bytes par))))"

definition set_headers ::
  "packet \<Rightarrow> int \<Rightarrow> bool \<Rightarrow> int \<Rightarrow> bool \<Rightarrow> bool \<Rightarrow> int \<Rightarrow> error + packet" where
  "set_headers p mtype tagged source res_required ack_required sequence =
     rbind (packbytes [(0, 2), (of_bool tagged, 1), (1, 1), (1024, 12)]) (\<lambda>protocol.
     rbind (append_param (frame p) ''protocol'' (IntV protocol) (tobytes 16)) (\<lambda>f1.
     rbind (append_param f1 ''source'' (IntV source) (tobytes 32)) (\<lambda>f2.
     rbind (append_param (frame_address p) ''target'' (IntV 0) (tobytes 64)) (\<lambda>a1.
     rbind (append_param a1 ''reserved'' (IntV 0) (tobytes 48)) (\<lambda>a2.
     rbind (packbytes [(0, 6), (of_bool ack_required, 1), (of_bool res_required, 1)]) (\<lambda>resp.
     rbind (append_param a2 ''resp'' (IntV resp) (tobytes 8)) (\<lambda>a3.
     rbind (append_param a3 ''sequence'' (IntV sequence) (tobytes 8)) (\<lambda>a4.
     rbind (append_param (protocol_header p) ''reserved'' (IntV 0) (tobytes 64)) (\<lambda>h1.
     rbind (append_param h1 ''message type'' (IntV mtype) (tobytes 16)) (\<lambda>h2.
     rbind (append_param h2 ''reserved'' (IntV 0) (tobytes 16)) (\<lambda>h3.
       Inr (p\<lparr>frame := f2, frame_address := a4, protocol_header := h3\<rparr>))))))))))))"

text \<open>
  Python floats are IEEE 754 doubles; a finite one is modelled by the rational number it
  denotes. \<open>int(x)\<close> on a number is truncation toward zero.
\<close>

definition py_int :: "rat \<Rightarrow> int" where
  "py_int x = (if x < 0 then - \<lfloor>- x\<rfloor> else \<lfloor>x\<rfloor>)"

text \<open>Rounding to the nearest integer, ties to the even one (Python's \<open>round\<close>, and the
  rounding of IEEE 754 arithmetic).\<close>

definition py_round :: "rat \<Rightarrow> int" where
  "py_round x =
     (let f = \<lfloor>x\<rfloor>; d = x - of_int f
      in if d < 1 / 2 then f else if 1 / 2 < d then f + 1 else if even f then f else f + 1)"

text \<open>The binary exponent of a positive rational \<open>x\<close>: the \<open>e\<close> with
  \<open>2^e \<le> x < 2^(e+1)\<close>, from the bit lengths of numerator and denominator.\<close>

definition ilog2 :: "rat \<Rightarrow> int" where
  "ilog2 x =
     (case quotient_of x of (a, b) \<Rightarrow>
        let k = int (bit_length a) - int (bit_length b)
        in if power_int 2 k \<le> x then k else k - 1)"

text \<open>
  The double nearest to a rational (binary64: 53 significant bits, least exponent -1022
  with gradual underflow, round to nearest, ties to even); \<open>None\<close> is an infinity, the
  result when the rounded magnitude reaches \<open>2^1024\<close>.
\<close>

definition round_double :: "rat \<Rightarrow> rat option" where
  "round_double x =
     (if x = 0 then Some 0
      else let e = max (ilog2 \<bar>x\<bar>) (- 1022);
               q = power_int 2 (e - 52);
               y = of_int (py_round (x / q)) * q
           in if 2 ^ 1024 \<le> \<bar>y\<bar> then None else Some y)"

text \<open>The product \<open>x * y\<close> of two floats: the exact product, rounded once.\<close>

definition float_mul :: "rat \<Rightarrow> rat \<Rightarrow> rat option" where
  "float_mul x y = round_double (x * y)"

text \<open>\<open>int(x)\<close> of a float result: OverflowError on an infinity.\<close>

definition int_of_float :: "rat option \<Rightarrow> error + int" where
  "int_of_float r = (case r of None \<Rightarrow> Inl OverflowError | Some x \<Rightarrow> Inr (py_int x))"

definition Packet_get_state :: "error + packet" where
  "Packet_get_state =
     rbind (set_headers Packet_init 101 False 123 True False 0) (\<lambda>p. set_size p 2)"

definition Packet_state :: "rat \<Rightarrow> rat \<Rightarrow> rat \<Rightarrow> rat \<Rightarrow> rat \<Rightarrow> error + packet" where
  "Packet_state hue saturation brightness kelvin duration =
     rbind (set_headers Packet_init 102 False 123 True False 0) (\<lambda>p.
     rbind (append_param (payload p) ''reserved'' (IntV 0) 1) (\<lambda>q1.
     rbind (append_param q1 ''hue'' (IntV (py_int hue)) (tobytes 16)) (\<lambda>q2.
     rbind (append_param q2 ''saturation'' (IntV (py_int saturation)) (tobytes 16)) (\<lambda>q3.
     rbind (append_param q3 ''brightness'' (IntV (py_int brightness)) (tobytes 16)) (\<lambda>q4.
     rbind (append_param q4 ''kelvin'' (IntV (py_int kelvin)) (tobytes 16)) (\<lambda>q5.
     rbind (int_of_float (float_mul duration 1000)) (\<lambda>ms.
     rbind (append_param q5 ''duration'' (IntV ms) (tobytes 32)) (\<lambda>q6.
       set_size (p\<lparr>payload := q6\<rparr>) 2))))))))"




text \<open>The value of the first field of a part that carries a given name, if any.\<close>

definition field_value :: "part \<Rightarrow> string \<Rightarrow> nat option" where
  "field_value ps nm = map_option (\<lambda>par. from_bytes (bytes par)) (find (\<lambda>par. name par = nm) ps)"

section \<open>packet\_builder.py: deconstruct\<close>

text \<open>A schema entry is a bit count or a dictionary of named sub-field bit counts.\<close>

datatype size_spec = Bits nat | Fields "(string \<times> nat) list"

fun bin_digits :: "nat \<Rightarrow> string" where
  "bin_digits n =
     (if n = 0 then [] else bin_digits (n div 2) @ [if odd n then CHR ''1'' else CHR ''0''])"

declare bin_digits.simps [simp del]

text \<open>The format \<open>f"{piece:0{size}b}"\<close> of a non-negative integer: its binary digits,
  zero-padded on the left to at least \<open>size\<close> characters.\<close>

definition format_b :: "nat \<Rightarrow> nat \<Rightarrow> string" where
  "format_b piece width =
     (let ds = (if piece = 0 then ''0'' else bin_digits piece)
      in replicate (width - length ds) (CHR ''0'') @ ds)"

text \<open>\<open>int(part, 2)\<close> on a string of binary digits; the empty string raises ValueError.\<close>

definition int_base2 :: "string \<Rightarrow> error + int" where
  "int_base2 part =
     (if part = [] \<or> (\<exists>c \<in> set part. c \<noteq> CHR ''0'' \<and> c \<noteq> CHR ''1'') then Inl ValueError
      else Inr (foldl (\<lambda>acc c. 2 * acc + (if c = CHR ''1'' then 1 else 0)) 0 part))"

text \<open>The inner loop of \<open>deconstruct\<close>: slice the binary string per sub-field, in order.\<close>

fun sub_fields :: "string \<Rightarrow> nat \<Rightarrow> (string \<times> nat) list \<Rightarrow> error + (string \<times> int) list" where
  "sub_fields s subindex [] = Inr []"
| "sub_fields s subindex ((k, subsize) # rest) =
     rbind (int_base2 (take subsize (drop subindex s))) (\<lambda>v.
     rbind (sub_fields s (subindex + subsize) rest) (\<lambda>r. Inr ((k, v) # r)))"

text \<open>\<open>deconstruct(packet, sizes)\<close>, consumed to the end (as \<open>dict(result)\<close> does). A slice
  that reaches beyond the packet is shorter or empty, and \<open>int.from_bytes\<close> of it is
  what the bytes present give.\<close>

fun deconstruct :: "byte list \<Rightarrow> nat \<Rightarrow> (string \<times> size_spec) list \<Rightarrow> error + (string \<times> int) list" where
  "deconstruct packet index [] = Inr []"
| "deconstruct packet index ((key, sz) # rest) =
     (let subsizes = (case sz of Fields d \<Rightarrow> d | Bits _ \<Rightarrow> []);
          size = (case sz of Fields d \<Rightarrow> sum_list (map snd d) | Bits n \<Rightarrow> n);
          piece = from_bytes (take (size div 8) (drop index packet))
      in rbind (if subsizes \<noteq> [] then sub_fields (format_b piece size) 0 subsizes
                else Inr [(key, int piece)]) (\<lambda>ys.
         rbind (deconstruct packet (index + size div 8) rest) (\<lambda>zs. Inr (ys @ zs))))"

definition MSGHEADER :: "(string \<times> size_spec) list" where
  "MSGHEADER =
     [(''size'', Bits 16),
      (''protocol'', Fields [(''origin'', 2), (''tagged'', 1), (''addressable'', 1), (''protocol'', 12)]),
      (''source'', Bits 32),
      (''target'', Bits 64),
      (''reserved'', Bits 48),
      (''resp'', Fields [(''reserved'', 6), (''ack_required'', 1), (''res_required'', 1)]),
      (''sequence'', Bits 8),
      (''reserved'', Bits 64),
      (''type'', Bits 16),
      (''reserved'', Bits 16)]"

section \<open>lifx.py: transport and get\_state\<close>

text \<open>A Python dict with string keys: an association list in insertion order.\<close>

type_synonym pydict = "(string \<times> int) list"

definition dict :: "(string \<times> int) list \<Rightarrow> pydict" where
  "dict items = foldl (\<lambda>d kv. AList.update (fst kv) (snd kv) d) [] items"

definition dict_get :: "pydict \<Rightarrow> string \<Rightarrow> int option" where
  "dict_get d k = map_of d k"

definition dict_get_default :: "pydict \<Rightarrow> string \<Rightarrow> int \<Rightarrow> int" where
  "dict_get_default d k dflt = (case map_of d k of None \<Rightarrow> dflt | Some v \<Rightarrow> v)"

definition decodemap :: "(string \<times> size_spec) list" where
  "decodemap = MSGHEADER @
     [(''hue'', Bits 16),
      (''saturation'', Bits 16),
      (''brightness'', Bits 16),
      (''kelvin'', Bits 16),
      (''reserved'', Bits 16),
      (''power'', Bits 16),
      (''label'', Bits 32),
      (''reserved'', Bits 64)]"

datatype timer_status = Created | Started | Cancelled | Finished

record py_timer =
  interval :: rat
  status :: timer_status

definition is_alive :: "py_timer \<Rightarrow> bool" where
  "is_alive t = (status t = Started)"

definition cancel :: "py_timer \<Rightarrow> py_timer" where
  "cancel t = t\<lparr>status := Cancelled\<rparr>"

text \<open>
  The MotionHandler. \<open>sent\<close> is a ghost field: the packets handed to \<open>sock.send\<close> so far,
  oldest first. The device is the external collaborator: \<open>dev\<close> below is what
  \<open>sock.recv\<close> gives for a query, \<open>Inl Timeout\<close> when nothing arrives within the socket's
  timeout. Sending itself is taken to succeed.
\<close>

record handler =
  delay :: rat
  fadetime :: rat
  last_state :: pydict
  is_active :: bool
  fading_timer :: py_timer
  is_fading :: bool
  timer :: py_timer
  sent :: "packet list"

text \<open>\<open>send_packet\<close>: unless silent, the debug line reads \<open>bytestring.msgtype\<close> first.\<close>

definition send_packet :: "packet \<Rightarrow> bool \<Rightarrow> handler \<Rightarrow> error option \<times> handler" where
  "send_packet bytestring silent s =
     (case (if \<not> silent then msgtype bytestring else Inr 0) of
        Inl e \<Rightarrow> (Some e, s)
      | Inr _ \<Rightarrow> (None, s\<lparr>sent := sent s @ [bytestring]\<rparr>))"

text \<open>\<open>send_recieve_packet\<close>: send, then \<open>sock.recv(0xff)\<close>, at most 255 bytes of the reply.\<close>

definition send_recieve_packet ::
  "(error + byte list) \<Rightarrow> packet \<Rightarrow> bool \<Rightarrow> handler \<Rightarrow> (error + byte list) \<times> handler" where
  "send_recieve_packet dev bytestring silent s =
     (case (if \<not> silent then msgtype bytestring else Inr 0) of
        Inl e \<Rightarrow> (Inl e, s)
      | Inr _ \<Rightarrow>
          (case dev of
             Inl e \<Rightarrow> (Inl e, s\<lparr>sent := sent s @ [bytestring]\<rparr>)
           | Inr reply \<Rightarrow> (Inr (take 255 reply), s\<lparr>sent := sent s @ [bytestring]\<rparr>)))"

definition get_state :: "(error + byte list) \<Rightarrow> bool \<Rightarrow> handler \<Rightarrow> (error + pydict) \<times> handler" where
  "get_state dev silent s =
     (case Packet_get_state of
        Inl e \<Rightarrow> (Inl e, s)
      | Inr query \<Rightarrow>
          (case send_recieve_packet dev query silent s of
             (Inl e, s1) \<Rightarrow> (Inl e, s1)
           | (Inr response, s1) \<Rightarrow>
               (case deconstruct response 0 decodemap of
                  Inl e \<Rightarrow> (Inl e, s1)
                | Inr result \<Rightarrow> (Inr (dict result), s1))))"

section \<open>lifx.py: MotionHandler and the poll loop\<close>

definition dark :: rat where
  "dark = 1 / 100"

definition Handler_init :: "rat \<Rightarrow> rat \<Rightarrow> handler" where
  "Handler_init dly fade =
     \<lparr>delay = dly, fadetime = fade, last_state = [], is_active = True,
      fading_timer = \<lparr>interval = fade, status = Created\<rparr>, is_fading = False,
      timer = \<lparr>interval = dly, status = Created\<rparr>, sent = []\<rparr>"

definition fading_false :: "handler \<Rightarrow> handler" where
  "fading_false s = s\<lparr>is_fading := False\<rparr>"

definition brightness ::
  "(error + byte list) \<Rightarrow> rat \<Rightarrow> rat \<Rightarrow> handler \<Rightarrow> error option \<times> handler" where
  "brightness dev level duration s =
     (case (if last_state s \<noteq> [] then (Inr (last_state s), s) else get_state dev False s) of
        (Inl e, s1) \<Rightarrow> (Some e, s1)
      | (Inr state, s1) \<Rightarrow>
          (case Packet_state
                  (of_int (dict_get_default state ''hue'' 0))
                  (of_int (dict_get_default state ''saturation'' 0))
                  (level * 65535)
                  (of_int (dict_get_default state ''kelvin'' 3500))
                  duration of
             Inl e \<Rightarrow> (Some e, s1)
           | Inr pkt \<Rightarrow> send_packet pkt False s1))"

definition timeout :: "(error + byte list) \<Rightarrow> handler \<Rightarrow> error option \<times> handler" where
  "timeout dev s =
     (let s1 = s\<lparr>is_active := False\<rparr> in
      case brightness dev dark (fadetime s1) s1 of
        (Some e, s2) \<Rightarrow> (Some e, s2)
      | (None, s2) \<Rightarrow>
          (let s3 = (if is_alive (fading_timer s2)
                     then s2\<lparr>fading_timer := cancel (fading_timer s2)\<rparr> else s2)
           in (None, s3\<lparr>fading_timer := \<lparr>interval = fadetime s3, status = Started\<rparr>,
                        is_fading := True\<rparr>)))"

definition motion :: "(error + byte list) \<Rightarrow> handler \<Rightarrow> error option \<times> handler" where
  "motion dev s =
     (let s1 = (if is_alive (fading_timer s)
                then s\<lparr>fading_timer := cancel (fading_timer s)\<rparr> else s);
          s2 = (if is_alive (timer s1) then s1\<lparr>timer := cancel (timer s1)\<rparr> else s1)
      in if \<not> is_active s2
         then (case brightness dev
                      (case dict_get (last_state s2) ''brightness'' of
                         Some last_brightness \<Rightarrow> of_int last_brightness / 65535
                       | None \<Rightarrow> 1)
                      (1 / 10) s2 of
                 (Some e, s3) \<Rightarrow> (Some e, s3)
               | (None, s3) \<Rightarrow> (None, s3\<lparr>is_active := True\<rparr>))
         else (None, s2\<lparr>is_active := True\<rparr>))"

definition no_motion :: "handler \<Rightarrow> handler" where
  "no_motion s =
     (let s1 = (if is_alive (timer s) then s\<lparr>timer := cancel (timer s)\<rparr> else s)
      in s1\<lparr>timer := \<lparr>interval = delay s1, status = Started\<rparr>\<rparr>)"

text \<open>One pass of the body of the \<open>while True\<close> loop (the sleep left out):
  \<open>socket.timeout\<close> is caught and logged, any other exception leaves the loop.\<close>

definition poll :: "(error + byte list) \<Rightarrow> handler \<Rightarrow> error option \<times> handler" where
  "poll dev s =
     (if is_active s \<or> (\<not> is_active s \<and> \<not> is_fading s)
      then (case get_state dev True s of
              (Inl e, s1) \<Rightarrow> (if e = Timeout then None else Some e, s1)
            | (Inr new_state, s1) \<Rightarrow>
                if of_int (dict_get_default new_state ''brightness'' 0) > (dark * 10) * 65535
                then (case dict_get new_state ''power'' of
                        None \<Rightarrow> (Some TypeError, s1)
                      | Some pw \<Rightarrow>
                          if pw \<ge> 65280
                          then (if dict_get new_state ''brightness''
                                     \<noteq> dict_get (last_state s1) ''brightness''
                                then (None, s1\<lparr>last_state := new_state\<rparr>)
                                else (None, s1))
                          else (None, s1))
                else (None, s1))
      else (None, s))"

text \<open>
  The controller as a state machine. A timer's expiry is an event of the environment: it
  runs the timer's callback when the timer is alive and does nothing otherwise (a
  cancelled timer never calls back).
\<close>

datatype event = Motion | No_motion | Timer_expires | Fading_timer_expires | Poll

fun step :: "(error + byte list) \<Rightarrow> event \<Rightarrow> handler \<Rightarrow> error option \<times> handler" where
  "step dev Motion s = motion dev s"
| "step dev No_motion s = (None, no_motion s)"
| "step dev Timer_expires s =
     (if is_alive (timer s) then timeout dev (s\<lparr>timer := (timer s)\<lparr>status := Finished\<rparr>\<rparr>)
      else (None, s))"
| "step dev Fading_timer_expires s =
     (if is_alive (fading_timer s)
      then (None, fading_false (s\<lparr>fading_timer := (fading_timer s)\<lparr>status := Finished\<rparr>\<rparr>))
      else (None, s))"
| "step dev Poll s = poll dev s"

text \<open>Events handled one after the other; the state left by a handler that raised stays.\<close>

definition run :: "(error + byte list) \<Rightarrow> event list \<Rightarrow> handler \<Rightarrow> handler" where
  "run dev evs s = foldl (\<lambda>st ev. snd (step dev ev st)) s evs"

section \<open>Notions used in the statements\<close>

text \<open>A value fits \<open>n\<close> bytes as an unsigned integer.\<close>

definition in_range :: "nat \<Rightarrow> int \<Rightarrow> bool" where
  "in_range n v = (0 \<le> v \<and> v < 256 ^ n)"

text \<open>A named payload field of what a builder returned.\<close>

definition built_field :: "error + packet \<Rightarrow> string \<Rightarrow> error + nat option" where
  "built_field r nm = (case r of Inl e \<Rightarrow> Inl e | Inr p \<Rightarrow> Inr (field_value (payload p) nm))"

text \<open>A string of binary digits only.\<close>

definition binary :: "string \<Rightarrow> bool" where
  "binary s = (set s \<subseteq> {CHR ''0'', CHR ''1''})"

text \<open>What \<open>deconstruct\<close> yields for a composite field of \<open>width\<close> bits holding
  \<open>piece\<close> (nothing, should a slice fail to parse).\<close>

definition sub_values :: "nat \<Rightarrow> nat \<Rightarrow> (string \<times> nat) list \<Rightarrow> (string \<times> int) list" where
  "sub_values piece width subs =
     (case sub_fields (format_b piece width) 0 subs of Inl _ \<Rightarrow> [] | Inr r \<Rightarrow> r)"

text \<open>The colour fields of a cached state, as \<open>brightness\<close> reads them, fit 16 bits.\<close>

definition colour_ok :: "pydict \<Rightarrow> bool" where
  "colour_ok d =
     (in_range 2 (dict_get_default d ''hue'' 0)
      \<and> in_range 2 (dict_get_default d ''saturation'' 0)
      \<and> in_range 2 (dict_get_default d ''kelvin'' 3500))"


section \<open>Bytes and integers\<close>

lemma length_le_bytes [simp]: "length (le_bytes n v) = n"
  by (induction n arbitrary: v) auto

lemma le_bytes_zero [simp]: "le_bytes n 0 = replicate n 0"
  by (induction n) auto

lemma from_bytes_le_bytes: "0 \<le> v \<Longrightarrow> v < 256 ^ n \<Longrightarrow> int (from_bytes (le_bytes n v)) = v"
proof (induction n arbitrary: v)
  case 0
  then show ?case by simp
next
  case (Suc n)
  have d: "0 \<le> v div 256" "v div 256 < 256 ^ n"
    using Suc.prems by (auto simp: div_less_iff_less_mult pos_imp_zdiv_nonneg_iff)
  have u: "int (unat (word_of_int (v mod 256) :: byte)) = v mod 256"
    by (simp add: unsigned_of_int take_bit_eq_mod)
  show ?case
    using Suc.IH [OF d] u by simp
qed

lemma from_bytes_append_zeros [simp]: "from_bytes (bs @ replicate k 0) = from_bytes bs"
  by (induction bs) (auto, induction k, auto)

lemma from_bytes_bound: "from_bytes bs < 256 ^ length bs"
proof (induction bs)
  case Nil
  then show ?case by simp
next
  case (Cons b bs)
  have "unat b < 256" using unsigned_less [of b, where 'a = nat] by simp
  with Cons show ?case by simp
qed

lemma le_bytes_add: "0 \<le> v \<Longrightarrow> v < 256 ^ m \<Longrightarrow> le_bytes (m + k) v = le_bytes m v @ replicate k 0"
proof (induction m arbitrary: v)
  case 0
  then have "v = 0" by simp
  then show ?case by simp
next
  case (Suc m)
  have d: "0 \<le> v div 256" "v div 256 < 256 ^ m"
    using Suc.prems by (auto simp: div_less_iff_less_mult pos_imp_zdiv_nonneg_iff)
  show ?case using Suc.IH [OF d] by simp
qed

lemma bit_length_nat_upper: "n < 2 ^ bit_length_nat n"
proof (induction n rule: bit_length_nat.induct)
  case (1 n)
  show ?case
  proof (cases "n = 0")
    case True
    then show ?thesis by (simp add: bit_length_nat.simps)
  next
    case False
    from 1 [OF False] have "n div 2 < 2 ^ bit_length_nat (n div 2)" .
    then have "n < 2 * 2 ^ bit_length_nat (n div 2)" by linarith
    with False show ?thesis by (subst bit_length_nat.simps) simp
  qed
qed

lemma bit_length_nat_lower: "0 < n \<Longrightarrow> 2 ^ (bit_length_nat n - 1) \<le> n"
proof (induction n rule: bit_length_nat.induct)
  case (1 n)
  then have nz: "n \<noteq> 0" by simp
  show ?case
  proof (cases "n div 2 = 0")
    case True
    then have "n = 1" using nz by linarith
    then show ?thesis by (simp add: bit_length_nat.simps)
  next
    case False
    then have "2 ^ (bit_length_nat (n div 2) - 1) \<le> n div 2" using 1(1) [OF nz] by simp
    moreover have "bit_length_nat (n div 2) \<noteq> 0" using False by (subst bit_length_nat.simps) simp
    ultimately have "2 ^ bit_length_nat (n div 2) \<le> 2 * (n div 2)"
      by (cases "bit_length_nat (n div 2)") auto
    then have "2 ^ bit_length_nat (n div 2) \<le> n" by linarith
    with nz show ?thesis by (subst bit_length_nat.simps) simp
  qed
qed


lemma bit_length_upper: "0 \<le> v \<Longrightarrow> v < 2 ^ bit_length v"
proof -
  assume v: "0 \<le> v"
  have "nat v < 2 ^ bit_length v" using bit_length_nat_upper [of "nat v"] v by (simp add: bit_length_def)
  then have "int (nat v) < int (2 ^ bit_length v)" by (simp only: of_nat_less_iff)
  then show ?thesis using v by simp
qed

lemma bit_length_lower: "0 < v \<Longrightarrow> 2 ^ (bit_length v - 1) \<le> v"
proof -
  assume v: "0 < v"
  have "2 ^ (bit_length v - 1) \<le> nat v" using bit_length_nat_lower [of "nat v"] v by (simp add: bit_length_def)
  then have "int (2 ^ (bit_length v - 1)) \<le> int (nat v)" by (simp only: of_nat_le_iff)
  then show ?thesis using v by simp
qed

lemma nbytes_fits:
  assumes "0 \<le> v"
  shows "v < 256 ^ nbytes v"
proof -
  have "v < 2 ^ bit_length v" using bit_length_upper [OF assms] .
  also have "\<dots> \<le> (2::int) ^ (8 * nbytes v)"
    unfolding nbytes_def by (rule power_increasing) auto
  also have "\<dots> = 256 ^ nbytes v" by (simp add: power_mult)
  finally show ?thesis .
qed

lemma nbytes_minimal:
  assumes "0 < v" "v < 256 ^ n"
  shows "nbytes v \<le> n"
proof -
  have "(2::int) ^ (bit_length v - 1) \<le> v" using bit_length_lower [OF assms(1)] .
  also have "v < 2 ^ (8 * n)" using assms by (simp add: power_mult)
  finally have "(2::int) ^ (bit_length v - 1) < 2 ^ (8 * n)" .
  then have "bit_length v - 1 < 8 * n"
    using power_less_imp_less_exp [of "2::int" "bit_length v - 1" "8 * n"] by simp
  then show ?thesis unfolding nbytes_def by linarith
qed

lemma nbytes_exceeds:
  assumes "256 ^ n \<le> v"
  shows "n < nbytes v"
proof -
  have "(0::int) < 256 ^ n" by simp
  then have "0 \<le> v" using assms by linarith
  from nbytes_fits [OF this] assms have "(256::int) ^ n < 256 ^ nbytes v" by linarith
  then show ?thesis
    using power_less_imp_less_exp [of "256::int" n "nbytes v"] by simp
qed

lemma to_bytearray_nonneg:
  "0 \<le> v \<Longrightarrow> to_bytearray v 8 = Inr (map uint (le_bytes (nbytes v) v))"
  using nbytes_fits [of v] by (simp add: to_bytearray_def to_bytes_def nbytes_def)

lemma to_bytearray_negative:
  "v < 0 \<Longrightarrow> to_bytearray v 8 = Inl OverflowError"
  by (simp add: to_bytearray_def to_bytes_def)

lemma store_fits:
  "\<forall>v \<in> set vs. 0 \<le> v \<and> v < 256 \<Longrightarrow> i + length vs \<le> length buf \<Longrightarrow>
   store buf i vs = Inr (take i buf @ map word_of_int vs @ drop (i + length vs) buf)"
proof (induction vs arbitrary: buf i)
  case Nil
  then show ?case by simp
next
  case (Cons v vs)
  have "store (buf[i := word_of_int v]) (Suc i) vs =
        Inr (take (Suc i) (buf[i := word_of_int v]) @ map word_of_int vs @ drop (Suc i + length vs) (buf[i := word_of_int v]))"
    using Cons.prems by (intro Cons.IH) auto
  moreover have "take (Suc i) (buf[i := word_of_int v]) = take i buf @ [word_of_int v]"
    using Cons.prems by (simp add: take_Suc_conv_app_nth)
  ultimately show ?case using Cons.prems by simp
qed

lemma store_overflow:
  "\<forall>v \<in> set vs. 0 \<le> v \<and> v < 256 \<Longrightarrow> i \<le> length buf \<Longrightarrow> length buf < i + length vs \<Longrightarrow>
   store buf i vs = Inl IndexError"
proof (induction vs arbitrary: buf i)
  case Nil
  then show ?case by simp
next
  case (Cons v vs)
  show ?case
  proof (cases "length buf \<le> i")
    case True
    then show ?thesis by simp
  next
    case False
    have "store (buf[i := word_of_int v]) (Suc i) vs = Inl IndexError"
      using Cons.prems False by (intro Cons.IH) auto
    then show ?thesis using Cons.prems False by simp
  qed
qed

lemma uint_byte_range: "\<forall>v \<in> set (map uint (bs :: byte list)). 0 \<le> v \<and> v < 256"
proof -
  have "uint b < 256" for b :: byte using uint_bounded [of b] by simp
  then show ?thesis by auto
qed

lemma map_word_uint: "map word_of_int (map uint (bs :: byte list)) = bs"
  by (induction bs) auto

lemma Parameter_IntV:
  assumes "0 \<le> v" "v < 256 ^ n"
  shows "Parameter nm (IntV v) n False = Inr \<lparr>name = nm, bytes = le_bytes n v\<rparr>"
proof (cases "v = 0")
  case True
  then show ?thesis by (simp add: Parameter_def)
next
  case False
  let ?m = "nbytes v"
  have pos: "0 < v" using assms False by simp
  have fits: "v < 256 ^ ?m" using nbytes_fits assms by simp
  have mn: "?m \<le> n" using nbytes_minimal [OF pos assms(2)] .
  let ?bs = "le_bytes ?m v"
  let ?vs = "map uint ?bs @ replicate (n - ?m) 0"
  have rng: "\<forall>x \<in> set ?vs. 0 \<le> x \<and> x < 256"
    using uint_byte_range [of ?bs] by auto
  have "store (replicate n 0) 0 ?vs = Inr (take 0 (replicate n 0) @ map word_of_int ?vs @ drop (0 + length ?vs) (replicate n 0))"
    using mn by (intro store_fits [OF rng]) simp
  also have "map word_of_int ?vs = ?bs @ replicate (n - ?m) (0::byte)"
    using map_word_uint [of ?bs] by simp
  also have "?bs @ replicate (n - ?m) 0 = le_bytes n v"
    using le_bytes_add [OF assms(1) fits, of "n - ?m"] mn by simp
  finally have st: "store (replicate n 0) 0 ?vs = Inr (le_bytes n v)" using mn by simp
  show ?thesis
    using False st by (simp add: Parameter_def Let_def to_bytearray_nonneg [OF assms(1)])
qed

lemma Parameter_negative:
  "v < 0 \<Longrightarrow> Parameter nm (IntV v) n r = Inl OverflowError"
  by (simp add: Parameter_def to_bytearray_negative)

lemma Parameter_too_big:
  assumes "256 ^ n \<le> v"
  shows "Parameter nm (IntV v) n r = Inl IndexError"
proof -
  let ?m = "nbytes v"
  have "(0::int) < 256 ^ n" by simp
  then have nn: "0 \<le> v" "v \<noteq> 0" using assms by linarith+
  have big: "n < ?m" using nbytes_exceeds [OF assms] .
  let ?bs = "le_bytes ?m v"
  let ?vs = "map uint ?bs @ replicate (n - ?m) 0"
  have rng: "\<forall>x \<in> set ws. 0 \<le> x \<and> x < 256" if "ws = ?vs \<or> ws = rev ?vs" for ws
    using uint_byte_range [of ?bs] that by auto
  have a: "store (replicate n 0) 0 ?vs = Inl IndexError"
    using big by (intro store_overflow rng) simp_all
  have b: "store (replicate n 0) 0 (rev ?vs) = Inl IndexError"
    using big by (intro store_overflow rng) simp_all
  show ?thesis
    using nn a b by (cases r) (simp_all add: Parameter_def Let_def to_bytearray_nonneg [OF nn(1)] del: rev_append)
qed

section \<open>Floats: rounding to the nearest double\<close>

lemma py_round_of_int [simp]: "py_round (of_int n) = n"
  by (simp add: py_round_def)

lemma py_round_near: "\<bar>of_int (py_round x) - x\<bar> \<le> 1 / 2"
proof -
  have "of_int \<lfloor>x\<rfloor> \<le> x" "x < of_int \<lfloor>x\<rfloor> + 1" by linarith+
  then show ?thesis
    by (auto simp: py_round_def Let_def)
qed

lemma py_round_nonneg: "0 \<le> x \<Longrightarrow> 0 \<le> py_round x"
proof -
  assume "0 \<le> x"
  then have "0 \<le> \<lfloor>x\<rfloor>" by simp
  then show ?thesis by (auto simp: py_round_def Let_def)
qed

lemma two_powi_pos [simp]: "0 < power_int (2::rat) k"
  by simp

lemma of_int_bounds_rat:
  fixes a :: int
  shows "2 ^ n \<le> a \<Longrightarrow> (2::rat) ^ n \<le> of_int a" and "a < 2 ^ n \<Longrightarrow> (of_int a :: rat) < 2 ^ n"
proof -
  assume "2 ^ n \<le> a"
  then have "(of_int (2 ^ n) :: rat) \<le> of_int a" by (simp only: of_int_le_iff)
  then show "(2::rat) ^ n \<le> of_int a" by simp
next
  assume "a < 2 ^ n"
  then have "(of_int a :: rat) < of_int (2 ^ n)" by (simp only: of_int_less_iff)
  then show "(of_int a :: rat) < 2 ^ n" by simp
qed

lemma two_powi_diff_nat:
  "power_int (2::rat) (int m - int n) = 2 ^ m / 2 ^ n"
proof -
  have "power_int (2::rat) (int m - int n) = power_int 2 (int m) / power_int 2 (int n)"
    by (rule power_int_diff) simp
  then show ?thesis by (simp only: power_int_of_nat)
qed

lemma ilog2_bounds:
  assumes "0 < x"
  shows "power_int 2 (ilog2 x) \<le> x" and "x < power_int 2 (ilog2 x + 1)"
proof -
  obtain a b where q: "quotient_of x = (a, b)" by (cases "quotient_of x")
  have b: "0 < b" using quotient_of_denom_pos [OF q] .
  have x: "x = of_int a / of_int b" using quotient_of_div [OF q] .
  have bpos: "(0::rat) < of_int b" using b by simp
  have "(0::rat) < of_int a"
    using assms bpos unfolding x by (simp add: zero_less_divide_iff)
  then have a: "0 < a" by simp
  define la where "la = bit_length a"
  define lb where "lb = bit_length b"
  define k where "k = int la - int lb"
  have la: "2 ^ (la - 1) \<le> a" "a < 2 ^ la"
    using bit_length_lower [OF a] bit_length_upper [of a] a by (simp_all add: la_def)
  have lb: "2 ^ (lb - 1) \<le> b" "b < 2 ^ lb"
    using bit_length_lower [OF b] bit_length_upper [of b] b by (simp_all add: lb_def)
  have la0: "0 < la" using la(2) a by (cases la) simp_all
  have lb0: "0 < lb" using lb(2) b by (cases lb) simp_all
  have ra: "(2::rat) ^ (la - 1) \<le> of_int a" "(of_int a :: rat) < 2 ^ la"
    using of_int_bounds_rat(1) [OF la(1)] of_int_bounds_rat(2) [OF la(2)] by simp_all
  have rb: "(2::rat) ^ (lb - 1) \<le> of_int b" "(of_int b :: rat) < 2 ^ lb"
    using of_int_bounds_rat(1) [OF lb(1)] of_int_bounds_rat(2) [OF lb(2)] by simp_all
  have apos: "(0::rat) < of_int a" using a by simp
  have p1: "(0::rat) < 2 ^ (lb - 1)" and p2: "(0::rat) < 2 ^ lb" by simp_all
  have up: "x < power_int 2 (k + 1)"
  proof -
    have "of_int a * (2::rat) ^ (lb - 1) < 2 ^ la * of_int b"
      by (rule mult_less_le_imp_less [OF ra(2) rb(1)]) (use apos p1 in simp_all)
    then have "of_int a / of_int b < (2::rat) ^ la / 2 ^ (lb - 1)"
      using bpos p1 by (simp add: divide_less_eq less_divide_eq mult.commute)
    also have "(2::rat) ^ la / 2 ^ (lb - 1) = power_int 2 (int la - int (lb - 1))"
      by (simp only: two_powi_diff_nat)
    also have "int la - int (lb - 1) = k + 1"
      using lb0 by (simp add: k_def of_nat_diff)
    finally show ?thesis unfolding x .
  qed
  have low: "power_int 2 (k - 1) < x"
  proof -
    have "(2::rat) ^ (la - 1) * of_int b < of_int a * 2 ^ lb"
      by (rule mult_le_less_imp_less [OF ra(1) rb(2)]) (use bpos in simp_all)
    then have "(2::rat) ^ (la - 1) / 2 ^ lb < of_int a / of_int b"
      using bpos p2 by (simp add: divide_less_eq less_divide_eq mult.commute)
    moreover have "(2::rat) ^ (la - 1) / 2 ^ lb = power_int 2 (int (la - 1) - int lb)"
      by (simp only: two_powi_diff_nat)
    moreover have "int (la - 1) - int lb = k - 1"
      using la0 by (simp add: k_def of_nat_diff)
    ultimately show ?thesis unfolding x by simp
  qed
  have e: "ilog2 x = (if power_int 2 k \<le> x then k else k - 1)"
    by (simp add: ilog2_def q Let_def k_def la_def lb_def)
  show "power_int 2 (ilog2 x) \<le> x"
  proof (cases "power_int 2 k \<le> x")
    case True
    then show ?thesis by (simp add: e)
  next
    case False
    then show ?thesis using low by (simp add: e)
  qed
  show "x < power_int 2 (ilog2 x + 1)"
  proof (cases "power_int 2 k \<le> x")
    case True
    then show ?thesis using up by (simp add: e)
  next
    case False
    then show ?thesis by (simp add: e)
  qed
qed

lemma two_powi_less_iff: "power_int (2::rat) m < power_int 2 n \<longleftrightarrow> m < n"
proof
  assume l: "power_int (2::rat) m < power_int 2 n"
  show "m < n"
  proof (rule ccontr)
    assume "\<not> m < n"
    then have "n \<le> m" by simp
    then have "power_int (2::rat) n \<le> power_int 2 m" by (rule power_int_increasing) simp
    with l show False by simp
  qed
next
  assume "m < n"
  then show "power_int (2::rat) m < power_int 2 n" by (rule power_int_strict_increasing) simp
qed

lemma ilog2_unique:
  assumes "0 < x" "power_int 2 e \<le> x" "x < power_int 2 (e + 1)"
  shows "ilog2 x = e"
proof -
  have "power_int (2::rat) (ilog2 x) < power_int 2 (e + 1)"
    using ilog2_bounds(1) [OF assms(1)] assms(3) by (rule le_less_trans)
  then have a: "ilog2 x < e + 1" by (simp only: two_powi_less_iff)
  have "power_int (2::rat) e < power_int 2 (ilog2 x + 1)"
    using assms(2) ilog2_bounds(2) [OF assms(1)] by (rule le_less_trans)
  then have b: "e < ilog2 x + 1" by (simp only: two_powi_less_iff)
  from a b show ?thesis by simp
qed

lemma round_double_eval:
  assumes "x \<noteq> 0" "power_int 2 e \<le> \<bar>x\<bar>" "\<bar>x\<bar> < power_int 2 (e + 1)"
    and "e' = max e (- 1022)"
    and "py_round (x / power_int 2 (e' - 52)) = m"
    and "\<bar>of_int m * power_int 2 (e' - 52)\<bar> < (2::rat) ^ 1024"
  shows "round_double x = Some (of_int m * power_int 2 (e' - 52))"
proof -
  have "0 < \<bar>x\<bar>" using assms(1) by simp
  from ilog2_unique [OF this assms(2,3)] have "ilog2 \<bar>x\<bar> = e" .
  then show ?thesis
    using assms(1,4,5,6) by (simp add: round_double_def Let_def not_le)
qed

lemma big_bound: "(2::rat) ^ 54 \<le> 2 ^ 1024"
  by (rule power_increasing) simp_all

lemma round_double_small:
  assumes "x \<noteq> 0" "\<bar>x\<bar> < 2 ^ 53"
  defines "e' \<equiv> max (ilog2 \<bar>x\<bar>) (- 1022)"
  shows "e' \<le> 52"
proof -
  have "0 < \<bar>x\<bar>" using assms(1) by simp
  from ilog2_bounds(1) [OF this] assms(2)
  have "power_int (2::rat) (ilog2 \<bar>x\<bar>) < 2 ^ 53" by (rule le_less_trans)
  also have "(2::rat) ^ 53 = power_int 2 53" by simp
  finally have "ilog2 \<bar>x\<bar> < 53" by (simp only: two_powi_less_iff)
  then show ?thesis by (simp add: e'_def)
qed

lemma round_double_near:
  assumes "\<bar>x\<bar> < 2 ^ 53"
  shows "\<exists>y. round_double x = Some y \<and> \<bar>y - x\<bar> \<le> 1 / 2 \<and> (0 \<le> x \<longrightarrow> 0 \<le> y)"
proof (cases "x = 0")
  case True
  then show ?thesis by (simp add: round_double_def)
next
  case False
  define e' where "e' = max (ilog2 \<bar>x\<bar>) (- 1022)"
  define q :: rat where "q = power_int 2 (e' - 52)"
  define y where "y = of_int (py_round (x / q)) * q"
  have e': "e' \<le> 52" using round_double_small [OF False assms] by (simp add: e'_def)
  have qpos: "0 < q" by (simp add: q_def)
  have "q \<le> power_int 2 0"
    unfolding q_def by (rule power_int_increasing) (use e' in simp_all)
  then have q1: "q \<le> 1" by simp
  have "y - x = (of_int (py_round (x / q)) - x / q) * q"
    using qpos by (simp add: y_def field_simps)
  then have "\<bar>y - x\<bar> = \<bar>of_int (py_round (x / q)) - x / q\<bar> * q"
    using qpos by (simp add: abs_mult)
  also have "\<dots> \<le> (1 / 2) * q"
    by (rule mult_right_mono [OF py_round_near]) (use qpos in simp)
  also have "\<dots> \<le> 1 / 2" using q1 by simp
  finally have near: "\<bar>y - x\<bar> \<le> 1 / 2" .
  have "\<bar>y\<bar> < 2 ^ 53 + 1" using near assms by linarith
  also have "(2::rat) ^ 53 + 1 \<le> 2 ^ 54" by simp
  also note big_bound
  finally have fin: "\<not> 2 ^ 1024 \<le> \<bar>y\<bar>" by simp
  have r: "round_double x = Some y"
    using False fin by (simp add: round_double_def Let_def e'_def [symmetric] q_def [symmetric] y_def [symmetric])
  have nn: "0 \<le> y" if "0 \<le> x"
  proof -
    have "0 \<le> x / q" using that qpos by simp
    then have "0 \<le> py_round (x / q)" by (rule py_round_nonneg)
    then show ?thesis using qpos by (simp add: y_def)
  qed
  from r near nn show ?thesis by blast
qed

lemma round_double_exact:
  assumes "\<bar>n\<bar> < 2 ^ 53" "k \<le> 1074"
  shows "round_double (of_int n / 2 ^ k) = Some (of_int n / 2 ^ k)"
proof (cases "n = 0")
  case True
  then show ?thesis by (simp add: round_double_def)
next
  case False
  define x :: rat where "x = of_int n / 2 ^ k"
  define e' where "e' = max (ilog2 \<bar>x\<bar>) (- 1022)"
  have x0: "x \<noteq> 0" using False by (simp add: x_def)
  have ax: "\<bar>x\<bar> = of_int \<bar>n\<bar> / 2 ^ k" by (simp add: x_def abs_divide)
  have "(of_int \<bar>n\<bar> :: rat) < 2 ^ 53" using of_int_bounds_rat(2) [OF assms(1)] .
  then have "\<bar>x\<bar> < 2 ^ 53 / 2 ^ k" unfolding ax by (simp add: divide_strict_right_mono)
  also have "(2::rat) ^ 53 / 2 ^ k = power_int 2 (int 53 - int k)"
    by (simp only: two_powi_diff_nat)
  finally have up: "\<bar>x\<bar> < power_int 2 (53 - int k)" by simp
  have "0 < \<bar>x\<bar>" using x0 by simp
  from ilog2_bounds(1) [OF this] up
  have "power_int (2::rat) (ilog2 \<bar>x\<bar>) < power_int 2 (53 - int k)" by (rule le_less_trans)
  then have "ilog2 \<bar>x\<bar> < 53 - int k" by (simp only: two_powi_less_iff)
  then have e': "e' \<le> 52 - int k" using assms(2) by (simp add: e'_def)
  define j where "j = nat (52 - int k - e')"
  have j: "e' - 52 = - int (j + k)" using e' by (simp add: j_def)
  define q :: rat where "q = power_int 2 (e' - 52)"
  have "power_int (2::rat) (- int (j + k)) = 1 / power_int 2 (int (j + k))"
    by (rule power_int_minus_divide)
  then have q: "q = 1 / 2 ^ (j + k)"
    unfolding q_def j by (simp only: power_int_of_nat)
  have xq: "x / q = of_int (n * 2 ^ j)"
    by (simp add: q x_def power_add)
  have y: "of_int (py_round (x / q)) * q = x"
    unfolding xq py_round_of_int by (simp add: q x_def power_add)
  have "\<bar>x\<bar> \<le> of_int \<bar>n\<bar>"
    unfolding ax by (simp add: divide_le_eq mult_le_cancel_left1)
  also have "(of_int \<bar>n\<bar> :: rat) < 2 ^ 53" using of_int_bounds_rat(2) [OF assms(1)] .
  also have "(2::rat) ^ 53 \<le> 2 ^ 54" by simp
  also note big_bound
  finally have fin: "\<not> 2 ^ 1024 \<le> \<bar>x\<bar>" by simp
  have "round_double x = Some x"
    using x0 fin by (simp add: round_double_def Let_def e'_def [symmetric] q_def [symmetric] y)
  then show ?thesis by (simp add: x_def)
qed

lemma py_int_of_int [simp]: "py_int (of_int n) = n"
  by (simp add: py_int_def)

lemma py_int_numeral [simp]:
  "py_int (numeral n) = numeral n" "py_int 0 = 0" "py_int 1 = 1"
  "py_int (- numeral n) = - numeral n" "py_int (- 1) = - 1"
  by (simp_all add: py_int_def)

lemma py_int_nonneg: "0 \<le> x \<Longrightarrow> py_int x = \<lfloor>x\<rfloor>"
  by (simp add: py_int_def)


lemma float_mul_exact_int:
  assumes "x * y = of_int n" "\<bar>n\<bar> < 2 ^ 53"
  shows "int_of_float (float_mul x y) = Inr n"
proof -
  have "round_double (of_int n / 2 ^ 0) = Some (of_int n / 2 ^ 0)"
    by (rule round_double_exact [OF assms(2)]) simp
  then show ?thesis by (simp add: float_mul_def assms(1) int_of_float_def)
qed

lemma py_round_above: "\<lfloor>t\<rfloor> = f \<Longrightarrow> 1 / 2 < t - of_int f \<Longrightarrow> py_round t = f + 1"
  by (simp add: py_round_def Let_def)

lemma float_mul_dyadic: "float_mul (1 / 512) 1000 = Some (125 / 64)"
proof -
  have "round_double (of_int 125 / 2 ^ 6) = Some (of_int 125 / 2 ^ 6)"
    by (rule round_double_exact) simp_all
  then show ?thesis by (simp add: float_mul_def)
qed

text \<open>The double written \<open>0.3\<close> is 5404319552844595 / 2^54; its product with 1000 lies just
  below 300 and rounds to 300.\<close>

lemma float_mul_three_tenths:
  "float_mul (5404319552844595 / 18014398509481984) 1000 = Some 300"
proof -
  define x :: rat where "x = 5404319552844595 / 18014398509481984 * 1000"
  have x0: "x \<noteq> 0" by (simp add: x_def)
  have lo: "power_int 2 8 \<le> \<bar>x\<bar>" by (simp add: x_def)
  have hi: "\<bar>x\<bar> < power_int 2 (8 + 1)" by (simp add: x_def)
  have e: "(8::int) = max 8 (- 1022)" by simp
  have t: "x / power_int 2 (8 - 52) = 5404319552844595000 / 1024"
    by (simp add: x_def power_int_minus_divide)
  have fl: "\<lfloor>5404319552844595000 / 1024 :: rat\<rfloor> = 5277655813324799"
    by (simp add: floor_eq_iff)
  have m: "py_round (x / power_int 2 (8 - 52)) = 5277655813324800"
    unfolding t using py_round_above [OF fl] by simp
  have v: "of_int 5277655813324800 * power_int 2 (8 - 52) = (300::rat)"
    by (simp add: power_int_minus_divide)
  have "(300::rat) < 2 ^ 54" by simp
  also note big_bound
  finally have fin: "\<bar>of_int 5277655813324800 * power_int 2 (8 - 52)\<bar> < (2::rat) ^ 1024"
    unfolding v by simp
  from round_double_eval [OF x0 lo hi e m fin] show ?thesis
    unfolding v by (simp add: float_mul_def x_def)
qed

lemma py_round_below: "\<lfloor>t\<rfloor> = f \<Longrightarrow> t - of_int f < 1 / 2 \<Longrightarrow> py_round t = f"
  by (simp add: py_round_def Let_def)

text \<open>The double written \<open>1.001\<close> is 2254051613498933 / 2^51; its product with 1000 lies
  below 1001 and rounds to the double just below 1001.\<close>

lemma float_mul_1001:
  "float_mul (2254051613498933 / 2251799813685248) 1000 = Some (8804889115230207 / 8796093022208)"
proof -
  define x :: rat where "x = 2254051613498933 / 2251799813685248 * 1000"
  have x0: "x \<noteq> 0" by (simp add: x_def)
  have lo: "power_int 2 9 \<le> \<bar>x\<bar>" by (simp add: x_def)
  have hi: "\<bar>x\<bar> < power_int 2 (9 + 1)" by (simp add: x_def)
  have e: "(9::int) = max 9 (- 1022)" by simp
  have t: "x / power_int 2 (9 - 52) = 2254051613498933000 / 256"
    by (simp add: x_def power_int_minus_divide)
  have fl: "\<lfloor>2254051613498933000 / 256 :: rat\<rfloor> = 8804889115230207"
    by (simp add: floor_eq_iff)
  have m: "py_round (x / power_int 2 (9 - 52)) = 8804889115230207"
    unfolding t using py_round_below [OF fl] by simp
  have v: "of_int 8804889115230207 * power_int 2 (9 - 52) = (8804889115230207 / 8796093022208 :: rat)"
    by (simp add: power_int_minus_divide)
  have "(8804889115230207 / 8796093022208 :: rat) < 2 ^ 54" by simp
  also note big_bound
  finally have fin: "\<bar>of_int 8804889115230207 * power_int 2 (9 - 52)\<bar> < (2::rat) ^ 1024"
    unfolding v by simp
  from round_double_eval [OF x0 lo hi e m fin] show ?thesis
    unfolding v by (simp add: float_mul_def x_def)
qed

lemma int_of_float_1001:
  "int_of_float (float_mul (2254051613498933 / 2251799813685248) 1000) = Inr 1000"
proof -
  have "\<lfloor>8804889115230207 / 8796093022208 :: rat\<rfloor> = 1000" by (simp add: floor_eq_iff)
  then show ?thesis by (simp add: float_mul_1001 int_of_float_def py_int_def)
qed

section \<open>The message-type accessor\<close>

text \<open>
  C10. Reading \<open>msgtype\<close> of a packet whose protocol-header part has no field named
  "message type" raises StopIteration, and a freshly constructed packet is such a packet;
  it returns an integer exactly when a field of that name is present.
\<close>

theorem msgtype_stop_iteration:
  "msgtype Packet_init = Inl StopIteration
   \<and> ((\<exists>par \<in> set (protocol_header p). name par = ''message type'') \<longleftrightarrow> (\<exists>v. msgtype p = Inr v))
   \<and> ((\<forall>par \<in> set (protocol_header p). name par \<noteq> ''message type'') \<longleftrightarrow> msgtype p = Inl StopIteration)"
proof -
  let ?hits = "filter (\<lambda>par. name par = ''message type'') (protocol_header p)"
  have empty: "?hits = [] \<longleftrightarrow> (\<forall>par \<in> set (protocol_header p). name par \<noteq> ''message type'')"
    by (simp add: filter_empty_conv)
  have fresh: "msgtype Packet_init = Inl StopIteration"
    by (simp add: msgtype_def Packet_init_def)
  show ?thesis
  proof (cases ?hits)
    case Nil
    with empty fresh show ?thesis by (simp add: msgtype_def)
  next
    case (Cons par rest)
    with empty fresh show ?thesis by (auto simp: msgtype_def)
  qed
qed

theorem msgtype_stop_iteration_witness:
  "(\<exists>par \<in> set (protocol_header
       \<lparr>frame = [], frame_address = [],
        protocol_header = [\<lparr>name = ''reserved'', bytes = [0, 0]\<rparr>,
                           \<lparr>name = ''message type'', bytes = [102, 0]\<rparr>],
        payload = []\<rparr>). name par = ''message type'')
   \<and> msgtype \<lparr>frame = [], frame_address = [],
        protocol_header = [\<lparr>name = ''reserved'', bytes = [0, 0]\<rparr>,
                           \<lparr>name = ''message type'', bytes = [102, 0]\<rparr>],
        payload = []\<rparr> = Inr 102
   \<and> protocol_header Packet_init = []
   \<and> msgtype Packet_init = Inl StopIteration"
  using msgtype_stop_iteration [of "\<lparr>frame = [], frame_address = [],
        protocol_header = [\<lparr>name = ''reserved'', bytes = [0, 0]\<rparr>,
                           \<lparr>name = ''message type'', bytes = [102, 0]\<rparr>],
        payload = []\<rparr>"]
  by (simp add: msgtype_def Packet_init_def)

section \<open>Parameters, headers and the size field\<close>

lemma Parameter_IntV_cases:
  "Parameter nm (IntV v) n False =
     (if v < 0 then Inl OverflowError
      else if 256 ^ n \<le> v then Inl IndexError
      else Inr \<lparr>name = nm, bytes = le_bytes n v\<rparr>)"
  using Parameter_negative [of v nm n False] Parameter_too_big [of n v nm False]
    Parameter_IntV [of v n nm]
  by (cases "v < 0"; cases "256 ^ n \<le> v") simp_all

lemma le_bytes_1: "le_bytes 1 v = [word_of_int (v mod 256)]"
  by (simp add: numeral_eq_Suc)

lemma le_bytes_2: "le_bytes 2 v = [word_of_int (v mod 256), word_of_int (v div 256 mod 256)]"
  by (simp add: numeral_eq_Suc)

lemma le_bytes_4:
  "le_bytes 4 v = [word_of_int (v mod 256), word_of_int (v div 256 mod 256),
     word_of_int (v div 256 div 256 mod 256), word_of_int (v div 256 div 256 div 256 mod 256)]"
  by (simp add: numeral_eq_Suc)


lemma set_size_eq:
  "set_size p len =
     (if 65536 \<le> int (packet_len p + len) then Inl IndexError
      else Inr (p\<lparr>frame := \<lparr>name = ''size'', bytes = le_bytes 2 (int (packet_len p + len))\<rparr> # frame p\<rparr>))"
proof -
  have pre: "prepend_param (frame p) ''size'' (IntV 0) len
             = Inr (\<lparr>name = ''size'', bytes = replicate len 0\<rparr> # frame p)"
    by (simp add: prepend_param_def Parameter_def)
  have len1: "packet_len (p\<lparr>frame := \<lparr>name = ''size'', bytes = replicate len 0\<rparr> # frame p\<rparr>)
              = packet_len p + len"
    by (simp add: packet_len_def get_parts_def part_len_def)
  show ?thesis
    unfolding set_size_def pre
    by (simp add: Let_def len1 Parameter_IntV_cases del: of_nat_add)
qed

lemma packbytes_protocol: "packbytes [(0, 2), (of_bool False, 1), (1, 1), (1024, 12)] = Inr 5120"
  by (simp add: packbytes_def append_piece_def)

lemma packbytes_resp: "packbytes [(0, 6), (of_bool False, 1), (of_bool True, 1)] = Inr 1"
  by (simp add: packbytes_def append_piece_def)

lemma set_headers_default:
  "0 \<le> mt \<Longrightarrow> mt < 65536 \<Longrightarrow>
   set_headers Packet_init mt False 123 True False 0 =
     Inr \<lparr>frame = [\<lparr>name = ''protocol'', bytes = [0, 20]\<rparr>,
                   \<lparr>name = ''source'', bytes = [123, 0, 0, 0]\<rparr>],
          frame_address = [\<lparr>name = ''target'', bytes = replicate 8 0\<rparr>,
                           \<lparr>name = ''reserved'', bytes = replicate 6 0\<rparr>,
                           \<lparr>name = ''resp'', bytes = [1]\<rparr>,
                           \<lparr>name = ''sequence'', bytes = [0]\<rparr>],
          protocol_header = [\<lparr>name = ''reserved'', bytes = replicate 8 0\<rparr>,
                             \<lparr>name = ''message type'', bytes = le_bytes 2 mt\<rparr>,
                             \<lparr>name = ''reserved'', bytes = replicate 2 0\<rparr>],
          payload = []\<rparr>"
  unfolding set_headers_def packbytes_protocol packbytes_resp
  by (simp add: append_param_def Parameter_IntV_cases tobytes_def Packet_init_def le_bytes_1 le_bytes_2 le_bytes_4)




lemma Packet_state_in_range:
  assumes "in_range 2 (py_int h)" "in_range 2 (py_int s)" "in_range 2 (py_int b)"
    "in_range 2 (py_int k)" "int_of_float (float_mul d 1000) = Inr ms" "in_range 4 ms"
  shows "Packet_state h s b k d =
     Inr \<lparr>frame = [\<lparr>name = ''size'', bytes = le_bytes 2 49\<rparr>,
                   \<lparr>name = ''protocol'', bytes = [0, 20]\<rparr>,
                   \<lparr>name = ''source'', bytes = [123, 0, 0, 0]\<rparr>],
          frame_address = [\<lparr>name = ''target'', bytes = replicate 8 0\<rparr>,
                           \<lparr>name = ''reserved'', bytes = replicate 6 0\<rparr>,
                           \<lparr>name = ''resp'', bytes = [1]\<rparr>,
                           \<lparr>name = ''sequence'', bytes = [0]\<rparr>],
          protocol_header = [\<lparr>name = ''reserved'', bytes = replicate 8 0\<rparr>,
                             \<lparr>name = ''message type'', bytes = le_bytes 2 102\<rparr>,
                             \<lparr>name = ''reserved'', bytes = replicate 2 0\<rparr>],
          payload = [\<lparr>name = ''reserved'', bytes = replicate 1 0\<rparr>,
                     \<lparr>name = ''hue'', bytes = le_bytes 2 (py_int h)\<rparr>,
                     \<lparr>name = ''saturation'', bytes = le_bytes 2 (py_int s)\<rparr>,
                     \<lparr>name = ''brightness'', bytes = le_bytes 2 (py_int b)\<rparr>,
                     \<lparr>name = ''kelvin'', bytes = le_bytes 2 (py_int k)\<rparr>,
                     \<lparr>name = ''duration'', bytes = le_bytes 4 ms\<rparr>]\<rparr>"
  using assms unfolding Packet_state_def in_range_def
  by (simp add: set_headers_default append_param_def Parameter_IntV_cases tobytes_def
      set_size_eq packet_len_def get_parts_def part_len_def)



lemma Packet_get_state_eq:
  "Packet_get_state =
     Inr \<lparr>frame = [\<lparr>name = ''size'', bytes = le_bytes 2 36\<rparr>,
                   \<lparr>name = ''protocol'', bytes = [0, 20]\<rparr>,
                   \<lparr>name = ''source'', bytes = [123, 0, 0, 0]\<rparr>],
          frame_address = [\<lparr>name = ''target'', bytes = replicate 8 0\<rparr>,
                           \<lparr>name = ''reserved'', bytes = replicate 6 0\<rparr>,
                           \<lparr>name = ''resp'', bytes = [1]\<rparr>,
                           \<lparr>name = ''sequence'', bytes = [0]\<rparr>],
          protocol_header = [\<lparr>name = ''reserved'', bytes = replicate 8 0\<rparr>,
                             \<lparr>name = ''message type'', bytes = le_bytes 2 101\<rparr>,
                             \<lparr>name = ''reserved'', bytes = replicate 2 0\<rparr>],
          payload = []\<rparr>"
  unfolding Packet_get_state_def
  by (simp add: set_headers_default set_size_eq packet_len_def get_parts_def part_len_def)



text \<open>
  C3, as the code has it. \<open>set_size\<close> prepends the zeroed size field first and takes
  \<open>len(self)\<close> afterwards: for a packet of total length N before the call (with N + 2
  below 65536) the value written into the 2-byte size field is N + 2, the length of the
  packet with its size field.
\<close>

theorem set_size_counts_its_own_field:
  assumes "packet_len p + 2 < 65536"
  shows "set_size p 2 =
           Inr (p\<lparr>frame := \<lparr>name = ''size'', bytes = le_bytes 2 (int (packet_len p + 2))\<rparr> # frame p\<rparr>)
         \<and> from_bytes (le_bytes 2 (int (packet_len p + 2))) = packet_len p + 2"
proof -
  have "int (from_bytes (le_bytes 2 (int (packet_len p + 2)))) = int (packet_len p + 2)"
    using assms by (intro from_bytes_le_bytes) auto
  then have "from_bytes (le_bytes 2 (int (packet_len p + 2))) = packet_len p + 2"
    by linarith
  then show ?thesis using assms by (simp add: set_size_eq)
qed

theorem set_size_counts_its_own_field_witness:
  "packet_len Packet_init + 2 < 65536
   \<and> set_size Packet_init 2 =
       Inr \<lparr>frame = [\<lparr>name = ''size'', bytes = [2, 0]\<rparr>], frame_address = [],
            protocol_header = [], payload = []\<rparr>
   \<and> from_bytes [2, 0] = 2"
  using set_size_counts_its_own_field [of Packet_init]
  by (simp add: Packet_init_def packet_len_def get_parts_def part_len_def le_bytes_2)

text \<open>
  C3 as stated fails: a packet of 6 bytes gets the size field 8, not 6.
\<close>

theorem set_size_before_prepend_counterexample:
  "packet_len \<lparr>frame = [\<lparr>name = ''protocol'', bytes = [0, 20]\<rparr>,
                         \<lparr>name = ''source'', bytes = [123, 0, 0, 0]\<rparr>],
                frame_address = [], protocol_header = [], payload = []\<rparr> = 6
   \<and> set_size \<lparr>frame = [\<lparr>name = ''protocol'', bytes = [0, 20]\<rparr>,
                         \<lparr>name = ''source'', bytes = [123, 0, 0, 0]\<rparr>],
                frame_address = [], protocol_header = [], payload = []\<rparr> 2
     = Inr \<lparr>frame = [\<lparr>name = ''size'', bytes = [8, 0]\<rparr>,
                     \<lparr>name = ''protocol'', bytes = [0, 20]\<rparr>,
                     \<lparr>name = ''source'', bytes = [123, 0, 0, 0]\<rparr>],
            frame_address = [], protocol_header = [], payload = []\<rparr>
   \<and> from_bytes [8, 0] = 8"
  by (simp add: set_size_eq packet_len_def get_parts_def part_len_def le_bytes_2)

section \<open>The set-color builder: ranges and the duration field\<close>

lemma from_bytes_in_range: "in_range n v \<Longrightarrow> from_bytes (le_bytes n v) = nat v"
  using from_bytes_le_bytes [of v n] by (simp add: in_range_def)

lemma built_field_state:
  assumes "in_range 2 (py_int h)" "in_range 2 (py_int s)" "in_range 2 (py_int b)"
    "in_range 2 (py_int k)" "int_of_float (float_mul d 1000) = Inr ms" "in_range 4 ms"
  shows "built_field (Packet_state h s b k d) ''hue'' = Inr (Some (nat (py_int h)))"
    and "built_field (Packet_state h s b k d) ''saturation'' = Inr (Some (nat (py_int s)))"
    and "built_field (Packet_state h s b k d) ''brightness'' = Inr (Some (nat (py_int b)))"
    and "built_field (Packet_state h s b k d) ''kelvin'' = Inr (Some (nat (py_int k)))"
    and "built_field (Packet_state h s b k d) ''duration'' = Inr (Some (nat ms))"
  using assms
  by (simp_all add: Packet_state_in_range [where ms = ms] built_field_def field_value_def
      from_bytes_in_range)




text \<open>
  C9, as the code has it. The 4-byte duration field holds \<open>int(duration * 1000)\<close>: the
  product of the duration and 1000 as a double (the exact product rounded to the nearest
  double, which on this range is within 1/2 of it), truncated toward zero and not rounded
  to the nearest integer, for every duration from 0 to 4294967 seconds.
\<close>

theorem state_duration_is_truncated:
  assumes "0 \<le> d" "d \<le> 4294967"
    and "in_range 2 (py_int h)" "in_range 2 (py_int s)" "in_range 2 (py_int b)"
      "in_range 2 (py_int k)"
  shows "\<exists>y. float_mul d 1000 = Some y \<and> \<bar>y - d * 1000\<bar> \<le> 1 / 2
     \<and> built_field (Packet_state h s b k d) ''duration'' = Inr (Some (nat \<lfloor>y\<rfloor>))"
proof -
  have nn: "0 \<le> d * 1000" and le: "d * 1000 \<le> 4294967000" using assms(1,2) by simp_all
  have "\<bar>d * 1000\<bar> \<le> 4294967000" using nn le by simp
  also have "(4294967000::rat) < 2 ^ 53" by simp
  finally have "\<bar>d * 1000\<bar> < 2 ^ 53" .
  from round_double_near [OF this] nn
  obtain y where y: "round_double (d * 1000) = Some y" "\<bar>y - d * 1000\<bar> \<le> 1 / 2" "0 \<le> y"
    by blast
  have "y \<le> 4294967000 + 1 / 2" using y(2) le by linarith
  then have "\<lfloor>y\<rfloor> \<le> 4294967000" by (simp add: floor_le_iff)
  moreover have "0 \<le> \<lfloor>y\<rfloor>" using y(3) by simp
  ultimately have r: "in_range 4 \<lfloor>y\<rfloor>" by (simp add: in_range_def)
  have m: "int_of_float (float_mul d 1000) = Inr \<lfloor>y\<rfloor>"
    by (simp add: float_mul_def y(1) int_of_float_def py_int_nonneg [OF y(3)])
  from built_field_state(5) [OF assms(3-6) m r] y(1,2) show ?thesis
    by (auto simp: float_mul_def)
qed

theorem state_duration_is_truncated_witness:
  "(0::rat) \<le> 5404319552844595 / 18014398509481984
   \<and> (5404319552844595 / 18014398509481984 :: rat) \<le> 4294967
   \<and> float_mul (5404319552844595 / 18014398509481984) 1000 = Some 300
   \<and> built_field (Packet_state 120 0 40000 3500 (5404319552844595 / 18014398509481984))
        ''duration'' = Inr (Some 300)"
proof -
  let ?d = "5404319552844595 / 18014398509481984 :: rat"
  have b: "in_range 2 (py_int 120)" "in_range 2 (py_int 0)" "in_range 2 (py_int 40000)"
    "in_range 2 (py_int 3500)"
    by (simp_all add: in_range_def)
  have d: "0 \<le> ?d" "?d \<le> 4294967" by simp_all
  from state_duration_is_truncated [OF d b]
  obtain y where y: "float_mul ?d 1000 = Some y"
    "built_field (Packet_state 120 0 40000 3500 ?d) ''duration'' = Inr (Some (nat \<lfloor>y\<rfloor>))"
    by blast
  have "y = 300" using y(1) float_mul_three_tenths by simp
  then show ?thesis using y(2) d float_mul_three_tenths by simp
qed

text \<open>
  C9 as stated fails: a duration of 1/512 s times 1000 is exactly 1.953125 (as a double
  too); the field holds 1, and rounding to the nearest integer gives 2.
\<close>

theorem state_duration_round_counterexample:
  "float_mul (1 / 512) 1000 = Some (125 / 64)
   \<and> built_field (Packet_state 0 0 0 3500 (1 / 512)) ''duration'' = Inr (Some 1)
   \<and> py_round (125 / 64) = 2"
proof -
  have fl: "\<lfloor>125 / 64 :: rat\<rfloor> = 1" by (simp add: floor_eq_iff)
  have b: "in_range 2 (py_int 0)" "in_range 2 (py_int 3500)" "in_range 4 1"
    by (simp_all add: in_range_def)
  have m: "int_of_float (float_mul (1 / 512) 1000) = Inr 1"
    using fl by (simp add: float_mul_dyadic int_of_float_def py_int_def)
  from built_field_state(5) [OF b(1) b(1) b(1) b(2) m b(3)]
  have "built_field (Packet_state 0 0 0 3500 (1 / 512)) ''duration'' = Inr (Some 1)"
    by simp
  moreover have "py_round (125 / 64) = 2"
    using fl by (simp add: py_round_def Let_def)
  ultimately show ?thesis using float_mul_dyadic by simp
qed

text \<open>
  At the double written \<open>1.001\<close> the product is the double just below 1001, and the field
  holds 1000.
\<close>

lemma state_duration_double_1001:
  "built_field (Packet_state 0 0 0 3500 (2254051613498933 / 2251799813685248)) ''duration''
     = Inr (Some 1000)"
proof -
  have b: "in_range 2 (py_int 0)" "in_range 2 (py_int 3500)" "in_range 4 1000"
    by (simp_all add: in_range_def)
  from built_field_state(5) [OF b(1) b(1) b(1) b(2) int_of_float_1001 b(3)]
  show ?thesis by simp
qed

section \<open>Bit packing\<close>

text \<open>
  C1 at a failing input. \<open>packbytes\<close> starts its fold from the first value, not from
  zero, and then folds over every piece, the first again: for the triple (1, 0, 0) with
  widths (1, 1, 1) it returns 12 (binary 1100) where the fold from zero gives 4 (binary
  100), and slicing 12 over 3 bits with the schema a:1, b:1, c:1 returns a=1, b=1, c=0.
\<close>

theorem packbytes_repeats_first_value:
  "packbytes [(1, 1), (0, 1), (0, 1)] = Inr 12
   \<and> foldl append_piece 0 [(1, 1), (0, 1), (0, 1)] = 4
   \<and> sub_fields (format_b 12 3) 0 [(''a'', 1), (''b'', 1), (''c'', 1)]
       = Inr [(''a'', 1), (''b'', 1), (''c'', 0)]"
proof -
  have d: "bin_digits 12 = ''1100''"
    by (simp add: bin_digits.simps)
  have "format_b 12 3 = ''1100''"
    by (simp add: format_b_def d)
  then show ?thesis
    by (simp add: packbytes_def append_piece_def int_base2_def)
qed

section \<open>Decoding a datagram\<close>

lemma binary_append: "binary (xs @ ys) \<longleftrightarrow> binary xs \<and> binary ys"
  unfolding binary_def by simp

lemma binary_bin_digits: "binary (bin_digits n)"
proof (induction n rule: bin_digits.induct)
  case (1 n)
  show ?case
  proof (cases "n = 0")
    case True
    then have "bin_digits n = []" by (subst bin_digits.simps) simp
    then show ?thesis unfolding binary_def by simp
  next
    case False
    then have e: "bin_digits n = bin_digits (n div 2) @ [if odd n then CHR ''1'' else CHR ''0'']"
      by (subst bin_digits.simps) simp
    have "binary [if odd n then CHR ''1'' else CHR ''0'']"
      unfolding binary_def by simp
    with 1 [OF False] show ?thesis unfolding e binary_append by simp
  qed
qed

lemma binary_format_b: "binary (format_b piece width)"
proof -
  have z: "binary (replicate k (CHR ''0''))" for k
    unfolding binary_def by auto
  have o: "binary ''0''" unfolding binary_def by simp
  show ?thesis
    unfolding format_b_def Let_def binary_append
    using z o binary_bin_digits by simp
qed

lemma length_format_b: "width \<le> length (format_b piece width)"
  by (simp add: format_b_def Let_def)

lemma int_base2_binary:
  assumes "binary s" "s \<noteq> []"
  shows "\<exists>v. int_base2 s = Inr v"
proof -
  have "\<not> (\<exists>c \<in> set s. c \<noteq> CHR ''0'' \<and> c \<noteq> CHR ''1'')"
    using assms(1) unfolding binary_def by blast
  then show ?thesis using assms(2) unfolding int_base2_def by simp
qed

lemma sub_fields_total:
  "binary s \<Longrightarrow> \<forall>kw \<in> set subs. 0 < snd kw \<Longrightarrow> i + sum_list (map snd subs) \<le> length s \<Longrightarrow>
   \<exists>r. sub_fields s i subs = Inr r \<and> map fst r = map fst subs"
proof (induction subs arbitrary: i)
  case Nil
  then show ?case by simp
next
  case (Cons kw subs)
  obtain k w where kw: "kw = (k, w)" by (cases kw)
  have w: "0 < w" using Cons.prems(2) kw by simp
  let ?part = "take w (drop i s)"
  have "set ?part \<subseteq> set s"
    by (meson set_take_subset set_drop_subset subset_trans)
  then have "binary ?part"
    using Cons.prems(1) unfolding binary_def by blast
  moreover have "?part \<noteq> []" using w Cons.prems(3) kw by simp
  ultimately obtain v where v: "int_base2 ?part = Inr v"
    using int_base2_binary by blast
  have "\<exists>r. sub_fields s (i + w) subs = Inr r \<and> map fst r = map fst subs"
    using Cons.prems kw by (intro Cons.IH) simp_all
  then obtain r where "sub_fields s (i + w) subs = Inr r" "map fst r = map fst subs" by blast
  then show ?case using v kw by simp
qed

lemma dict_lookup_aux:
  "map_of (foldl (\<lambda>d kv. AList.update (fst kv) (snd kv) d) d xs) k =
     (case map_of (rev xs) k of Some v \<Rightarrow> Some v | None \<Rightarrow> map_of d k)"
proof (induction xs arbitrary: d)
  case Nil
  then show ?case by simp
next
  case (Cons x xs)
  show ?case
    by (simp add: Cons.IH update_conv' map_add_def split: option.splits)
qed

lemma dict_get_dict: "dict_get (dict xs) k = map_of (rev xs) k"
  by (simp add: dict_get_def dict_def dict_lookup_aux split: option.splits)

lemma dict_get_default_dict:
  "dict_get_default (dict xs) k dflt = (case map_of (rev xs) k of None \<Rightarrow> dflt | Some v \<Rightarrow> v)"
  using dict_get_dict [of xs k] by (simp add: dict_get_def dict_get_default_def)

lemma dict_nonempty: "xs \<noteq> [] \<Longrightarrow> dict xs \<noteq> []"
proof -
  have upd: "AList.update k v d \<noteq> []" for k v and d :: pydict
    by (cases d) auto
  have "d \<noteq> [] \<Longrightarrow> foldl (\<lambda>d kv. AList.update (fst kv) (snd kv) d) d ys \<noteq> []" for d :: pydict and ys
    by (induction ys arbitrary: d) (auto simp: upd)
  then show "xs \<noteq> [] \<Longrightarrow> dict xs \<noteq> []"
    by (cases xs) (auto simp: dict_def upd)
qed

lemma sub_fields_format_b:
  assumes "\<forall>kw \<in> set subs. 0 < snd kw" "sum_list (map snd subs) \<le> width"
  shows "sub_fields (format_b piece width) 0 subs = Inr (sub_values piece width subs)"
    and "map fst (sub_values piece width subs) = map fst subs"
proof -
  have "0 + sum_list (map snd subs) \<le> length (format_b piece width)"
    using assms(2) length_format_b [of width piece] by simp
  from sub_fields_total [OF binary_format_b assms(1) this]
  obtain r where r: "sub_fields (format_b piece width) 0 subs = Inr r" "map fst r = map fst subs"
    by (elim exE conjE)
  then show "sub_fields (format_b piece width) 0 subs = Inr (sub_values piece width subs)"
    and "map fst (sub_values piece width subs) = map fst subs"
    by (simp_all add: sub_values_def)
qed

lemma deconstruct_Bits:
  "deconstruct p i ((key, Bits n) # rest) =
     rbind (deconstruct p (i + n div 8) rest)
       (\<lambda>zs. Inr ((key, int (from_bytes (take (n div 8) (drop i p)))) # zs))"
  by simp

lemma deconstruct_Fields:
  "subs \<noteq> [] \<Longrightarrow> deconstruct p i ((key, Fields subs) # rest) =
     rbind (sub_fields (format_b (from_bytes (take (sum_list (map snd subs) div 8) (drop i p)))
                          (sum_list (map snd subs))) 0 subs)
       (\<lambda>ys. rbind (deconstruct p (i + sum_list (map snd subs) div 8) rest) (\<lambda>zs. Inr (ys @ zs)))"
  by (simp add: Let_def)

lemma deconstruct_decodemap:
  "deconstruct p 0 decodemap =
      Inr (((''size'', int (from_bytes (take 2 p))) #
            sub_values (from_bytes (take 2 (drop 2 p))) 16
              [(''origin'', 2), (''tagged'', 1), (''addressable'', 1), (''protocol'', 12)] @
            [(''source'', int (from_bytes (take 4 (drop 4 p)))),
             (''target'', int (from_bytes (take 8 (drop 8 p)))),
             (''reserved'', int (from_bytes (take 6 (drop 16 p))))] @
            sub_values (from_bytes (take 1 (drop 22 p))) 8
              [(''reserved'', 6), (''ack_required'', 1), (''res_required'', 1)] @
            [(''sequence'', int (from_bytes (take 1 (drop 23 p)))),
             (''reserved'', int (from_bytes (take 8 (drop 24 p)))),
             (''type'', int (from_bytes (take 2 (drop 32 p)))),
             (''reserved'', int (from_bytes (take 2 (drop 34 p))))]) @
           [(''hue'', int (from_bytes (take 2 (drop 36 p)))),
            (''saturation'', int (from_bytes (take 2 (drop 38 p)))),
            (''brightness'', int (from_bytes (take 2 (drop 40 p)))),
            (''kelvin'', int (from_bytes (take 2 (drop 42 p)))),
            (''reserved'', int (from_bytes (take 2 (drop 44 p)))),
            (''power'', int (from_bytes (take 2 (drop 46 p)))),
            (''label'', int (from_bytes (take 4 (drop 48 p)))),
            (''reserved'', int (from_bytes (take 8 (drop 52 p))))])"
  by (simp add: decodemap_def MSGHEADER_def deconstruct_Bits deconstruct_Fields sub_fields_format_b
      del: deconstruct.simps(2) sub_fields.simps add_2_eq_Suc add_2_eq_Suc')

lemma dict_get_append:
  "map_of (rev pl) k = Some v \<Longrightarrow> dict_get (dict (hdr @ pl)) k = Some v"
  by (simp add: dict_get_dict map_add_def)

lemma from_bytes_2_bound: "int (from_bytes (take 2 bs)) < 65536"
proof -
  have "from_bytes (take 2 bs) < 256 ^ length (take 2 bs)" by (rule from_bytes_bound)
  also have "\<dots> \<le> (256::nat) ^ 2" by (rule power_increasing) simp_all
  finally show ?thesis by simp
qed

lemma decode_reading:
  "\<exists>rd. rbind (deconstruct p 0 decodemap) (\<lambda>r. Inr (dict r)) = Inr rd \<and> rd \<noteq> []
     \<and> dict_get rd ''hue'' = Some (int (from_bytes (take 2 (drop 36 p))))
     \<and> dict_get rd ''saturation'' = Some (int (from_bytes (take 2 (drop 38 p))))
     \<and> dict_get rd ''brightness'' = Some (int (from_bytes (take 2 (drop 40 p))))
     \<and> dict_get rd ''kelvin'' = Some (int (from_bytes (take 2 (drop 42 p))))
     \<and> dict_get rd ''power'' = Some (int (from_bytes (take 2 (drop 46 p))))"
proof -
  let ?pl = "[(''hue'', int (from_bytes (take 2 (drop 36 p)))),
            (''saturation'', int (from_bytes (take 2 (drop 38 p)))),
            (''brightness'', int (from_bytes (take 2 (drop 40 p)))),
            (''kelvin'', int (from_bytes (take 2 (drop 42 p)))),
            (''reserved'', int (from_bytes (take 2 (drop 44 p)))),
            (''power'', int (from_bytes (take 2 (drop 46 p)))),
            (''label'', int (from_bytes (take 4 (drop 48 p)))),
            (''reserved'', int (from_bytes (take 8 (drop 52 p))))]"
  obtain hdr where eq: "deconstruct p 0 decodemap = Inr (hdr @ ?pl)"
    by (rule that) (rule deconstruct_decodemap)
  define rd where "rd = dict (hdr @ ?pl)"
  have r: "rbind (deconstruct p 0 decodemap) (\<lambda>r. Inr (dict r)) = Inr rd"
    unfolding eq rd_def by simp
  have ne: "rd \<noteq> []" unfolding rd_def by (rule dict_nonempty) simp
  have "dict_get rd ''hue'' = Some (int (from_bytes (take 2 (drop 36 p))))"
    unfolding rd_def by (rule dict_get_append) simp
  moreover have "dict_get rd ''saturation'' = Some (int (from_bytes (take 2 (drop 38 p))))"
    unfolding rd_def by (rule dict_get_append) simp
  moreover have "dict_get rd ''brightness'' = Some (int (from_bytes (take 2 (drop 40 p))))"
    unfolding rd_def by (rule dict_get_append) simp
  moreover have "dict_get rd ''kelvin'' = Some (int (from_bytes (take 2 (drop 42 p))))"
    unfolding rd_def by (rule dict_get_append) simp
  moreover have "dict_get rd ''power'' = Some (int (from_bytes (take 2 (drop 46 p))))"
    unfolding rd_def by (rule dict_get_append) simp
  ultimately show ?thesis using r ne by blast
qed

lemma from_bytes_pad_slice:
  "from_bytes (take k (drop i (p @ replicate n 0))) = from_bytes (take k (drop i p))"
proof -
  have "take k (drop i (p @ replicate n 0))
        = take k (drop i p) @ replicate (min (k - length (drop i p)) (n - (i - length p))) 0"
    by simp
  then show ?thesis by (simp only: from_bytes_append_zeros)
qed

lemma deconstruct_pad:
  "deconstruct (p @ replicate n 0) i sizes = deconstruct p i sizes"
proof (induction sizes arbitrary: i)
  case Nil
  then show ?case by simp
next
  case (Cons ks sizes)
  obtain key sz where ks: "ks = (key, sz)" by (cases ks)
  show ?case
    unfolding ks deconstruct.simps Cons.IH from_bytes_pad_slice ..
qed

section \<open>The state query\<close>

lemma query_packet: "\<exists>q. Packet_get_state = Inr q \<and> msgtype q = Inr 101"
  by (simp add: Packet_get_state_eq msgtype_def le_bytes_2)

lemma get_state_reply:
  "\<exists>q rd. Packet_get_state = Inr q \<and> msgtype q = Inr 101
     \<and> get_state (Inr d) silent s = (Inr rd, s\<lparr>sent := sent s @ [q]\<rparr>)
     \<and> rbind (deconstruct (take 255 d) 0 decodemap) (\<lambda>r. Inr (dict r)) = Inr rd"
proof -
  obtain q where q: "Packet_get_state = Inr q" "msgtype q = Inr 101"
    using query_packet by (elim exE conjE)
  obtain rd where rd: "rbind (deconstruct (take 255 d) 0 decodemap) (\<lambda>r. Inr (dict r)) = Inr rd"
    using decode_reading [of "take 255 d"] by (elim exE conjE)
  then obtain r where r: "deconstruct (take 255 d) 0 decodemap = Inr r" "rd = dict r"
    by (cases "deconstruct (take 255 d) 0 decodemap") auto
  have "get_state (Inr d) silent s = (Inr rd, s\<lparr>sent := sent s @ [q]\<rparr>)"
    by (simp add: get_state_def send_recieve_packet_def q r)
  with q rd show ?thesis by blast
qed

lemma get_state_no_reply:
  "\<exists>q. Packet_get_state = Inr q \<and> msgtype q = Inr 101
     \<and> get_state (Inl e) silent s = (Inl e, s\<lparr>sent := sent s @ [q]\<rparr>)"
proof -
  obtain q where q: "Packet_get_state = Inr q" "msgtype q = Inr 101"
    using query_packet by (elim exE conjE)
  have "get_state (Inl e) silent s = (Inl e, s\<lparr>sent := sent s @ [q]\<rparr>)"
    by (simp add: get_state_def send_recieve_packet_def q)
  with q show ?thesis by blast
qed

lemma int_base2_zeros: "0 < n \<Longrightarrow> int_base2 (replicate n (CHR ''0'')) = Inr 0"
proof -
  have "foldl (\<lambda>acc c. 2 * acc + (if c = CHR ''1'' then 1 else 0)) 0 (replicate n (CHR ''0'')) = (0::int)"
    by (induction n) simp_all
  then show "0 < n \<Longrightarrow> int_base2 (replicate n (CHR ''0'')) = Inr 0"
    by (simp add: int_base2_def)
qed

lemma int_base2_zero: "int_base2 ''0'' = Inr 0"
  by (simp add: int_base2_def)

lemma format_b_zero: "0 < w \<Longrightarrow> format_b 0 w = replicate w (CHR ''0'')"
  by (cases w) (simp_all add: format_b_def replicate_append_same)

lemma sub_values_zero_protocol:
  "sub_values 0 16 [(''origin'', 2), (''tagged'', 1), (''addressable'', 1), (''protocol'', 12)]
     = [(''origin'', 0), (''tagged'', 0), (''addressable'', 0), (''protocol'', 0)]"
  by (simp add: sub_values_def format_b_zero int_base2_zeros int_base2_zero)

lemma sub_values_zero_resp:
  "sub_values 0 8 [(''reserved'', 6), (''ack_required'', 1), (''res_required'', 1)]
     = [(''reserved'', 0), (''ack_required'', 0), (''res_required'', 0)]"
  by (simp add: sub_values_def format_b_zero int_base2_zeros int_base2_zero)

text \<open>
  C5, as the code has it. The state-response decoder has no length check and never fails
  on a short datagram: a slice that reaches beyond the datagram is shorter or empty and
  \<open>int.from_bytes\<close> reads what is there. A datagram shorter than the 60 bytes of the
  schema decodes to the mapping that the same datagram padded with zero bytes decodes to.
\<close>

theorem get_state_decodes_short_datagram:
  assumes "length d < 60"
  shows "\<exists>rd. fst (get_state (Inr d) silent s) = Inr rd
     \<and> fst (get_state (Inr (d @ replicate (60 - length d) 0)) silent s) = Inr rd"
proof -
  let ?d' = "d @ replicate (60 - length d) 0"
  obtain q rd where a: "get_state (Inr d) silent s = (Inr rd, s\<lparr>sent := sent s @ [q]\<rparr>)"
    "rbind (deconstruct (take 255 d) 0 decodemap) (\<lambda>r. Inr (dict r)) = Inr rd"
    using get_state_reply [of d silent s] by (elim exE conjE)
  obtain q' rd' where b: "get_state (Inr ?d') silent s = (Inr rd', s\<lparr>sent := sent s @ [q']\<rparr>)"
    "rbind (deconstruct (take 255 ?d') 0 decodemap) (\<lambda>r. Inr (dict r)) = Inr rd'"
    using get_state_reply [of ?d' silent s] by (elim exE conjE)
  have "take 255 d = d" "take 255 ?d' = ?d'" using assms by simp_all
  then have "rd' = rd" using a(2) b(2) by (simp add: deconstruct_pad)
  then show ?thesis using a(1) b(1) by simp
qed

theorem get_state_decodes_short_datagram_witness:
  "length ([] :: byte list) < 60
   \<and> (\<exists>rd. fst (get_state (Inr []) True (Handler_init 300 300)) = Inr rd
         \<and> fst (get_state (Inr (replicate 60 0)) True (Handler_init 300 300)) = Inr rd)"
  using get_state_decodes_short_datagram [of "[]" True "Handler_init 300 300"] by simp

text \<open>
  C5 as stated fails: the empty datagram decodes to a mapping with every field 0; no
  DecodeError (nor any other exception) is raised.
\<close>

theorem get_state_truncated_counterexample:
  "fst (get_state (Inr []) True (Handler_init 300 300)) =
     Inr [(''size'', 0), (''origin'', 0), (''tagged'', 0), (''addressable'', 0), (''protocol'', 0),
          (''source'', 0), (''target'', 0), (''reserved'', 0), (''ack_required'', 0),
          (''res_required'', 0), (''sequence'', 0), (''type'', 0), (''hue'', 0),
          (''saturation'', 0), (''brightness'', 0), (''kelvin'', 0), (''power'', 0), (''label'', 0)]
   \<and> fst (get_state (Inr []) True (Handler_init 300 300)) \<noteq> Inl DecodeError"
proof -
  have "deconstruct [] 0 decodemap =
     Inr [(''size'', 0), (''origin'', 0), (''tagged'', 0), (''addressable'', 0), (''protocol'', 0),
          (''source'', 0), (''target'', 0), (''reserved'', 0),
          (''reserved'', 0), (''ack_required'', 0), (''res_required'', 0),
          (''sequence'', 0), (''reserved'', 0), (''type'', 0), (''reserved'', 0),
          (''hue'', 0), (''saturation'', 0), (''brightness'', 0), (''kelvin'', 0),
          (''reserved'', 0), (''power'', 0), (''label'', 0), (''reserved'', 0)]"
    unfolding deconstruct_decodemap [of "[]"] take_Nil drop_Nil from_bytes.simps
      sub_values_zero_protocol sub_values_zero_resp
    by simp
  then show ?thesis
    by (simp add: get_state_def send_recieve_packet_def Packet_get_state_eq dict_def)
qed

section \<open>The motion handler\<close>

lemma motion_ok_active: "fst (motion dev s) = None \<Longrightarrow> is_active (snd (motion dev s))"
  by (auto simp: motion_def Let_def split: prod.splits option.splits if_splits)

lemma quiet_tail:
  assumes "is_active t"
  shows "is_alive (timer (run dev [No_motion] t))
     \<and> is_active (run dev [No_motion, Motion] t)
     \<and> status (timer (run dev [No_motion, Motion] t)) = Cancelled
     \<and> sent (run dev [No_motion, Motion] t) = sent t
     \<and> step dev' Timer_expires (run dev [No_motion, Motion] t)
         = (None, run dev [No_motion, Motion] t)"
  using assms
  by (simp add: run_def motion_def no_motion_def is_alive_def cancel_def Let_def)

text \<open>
  C7. Motion detected, then motion cleared, then motion detected again, with no timer
  expiring in between. From an active controller (a fresh one in particular): the
  inactivity timer armed by the clearing is alive after it and cancelled by the second
  detection, the controller is active, nothing at all was sent, and a later expiry of that
  timer does nothing. From any state in which the first detection is handled without an
  exception: the clearing and the second detection send nothing further, and leave the
  controller active with the timer cancelled.
\<close>

theorem motion_cleared_motion_sends_nothing:
  "(is_active s \<longrightarrow>
      is_alive (timer (run dev [Motion, No_motion] s))
      \<and> is_active (run dev [Motion, No_motion, Motion] s)
      \<and> status (timer (run dev [Motion, No_motion, Motion] s)) = Cancelled
      \<and> sent (run dev [Motion, No_motion, Motion] s) = sent s
      \<and> step dev' Timer_expires (run dev [Motion, No_motion, Motion] s)
          = (None, run dev [Motion, No_motion, Motion] s))
   \<and> (fst (motion dev s) = None \<longrightarrow>
      is_active (run dev [Motion, No_motion, Motion] s)
      \<and> status (timer (run dev [Motion, No_motion, Motion] s)) = Cancelled
      \<and> sent (run dev [Motion, No_motion, Motion] s) = sent (snd (motion dev s))
      \<and> step dev' Timer_expires (run dev [Motion, No_motion, Motion] s)
          = (None, run dev [Motion, No_motion, Motion] s))"
proof -
  have one: "is_alive (timer (run dev [Motion, No_motion] s))
      \<and> is_active (run dev [Motion, No_motion, Motion] s)
      \<and> status (timer (run dev [Motion, No_motion, Motion] s)) = Cancelled
      \<and> sent (run dev [Motion, No_motion, Motion] s) = sent s
      \<and> step dev' Timer_expires (run dev [Motion, No_motion, Motion] s)
          = (None, run dev [Motion, No_motion, Motion] s)" if "is_active s"
    using that
    by (simp add: run_def motion_def no_motion_def is_alive_def cancel_def Let_def)
  have two: "is_active (run dev [Motion, No_motion, Motion] s)
      \<and> status (timer (run dev [Motion, No_motion, Motion] s)) = Cancelled
      \<and> sent (run dev [Motion, No_motion, Motion] s) = sent (snd (motion dev s))
      \<and> step dev' Timer_expires (run dev [Motion, No_motion, Motion] s)
          = (None, run dev [Motion, No_motion, Motion] s)" if "fst (motion dev s) = None"
  proof -
    have a: "is_active (snd (motion dev s))" using that by (rule motion_ok_active)
    have r: "run dev [Motion, No_motion, Motion] s
             = run dev [No_motion, Motion] (snd (motion dev s))"
      by (simp add: run_def)
    show ?thesis unfolding r using quiet_tail [OF a, of dev dev'] by simp
  qed
  show ?thesis
    by (rule conjI) (rule impI, erule one, rule impI, erule two)
qed

theorem motion_cleared_motion_sends_nothing_witness:
  "is_active (Handler_init 300 300)
   \<and> fst (motion (Inl Timeout) (Handler_init 300 300)) = None
   \<and> is_alive (timer (run (Inl Timeout) [Motion, No_motion] (Handler_init 300 300)))
   \<and> is_active (run (Inl Timeout) [Motion, No_motion, Motion] (Handler_init 300 300))
   \<and> status (timer (run (Inl Timeout) [Motion, No_motion, Motion] (Handler_init 300 300))) = Cancelled
   \<and> sent (run (Inl Timeout) [Motion, No_motion, Motion] (Handler_init 300 300)) = []"
proof -
  have a: "is_active (Handler_init 300 300)" "sent (Handler_init 300 300) = []"
    "fst (motion (Inl Timeout) (Handler_init 300 300)) = None"
    by (simp_all add: Handler_init_def motion_def is_alive_def Let_def)
  from motion_cleared_motion_sends_nothing [of "Handler_init 300 300" "Inl Timeout" "Inl Timeout"] a
  show ?thesis by simp
qed

lemma last_state_send_packet [simp]: "last_state (snd (send_packet pkt silent s)) = last_state s"
  by (simp add: send_packet_def split: sum.splits)

lemma last_state_get_state [simp]: "last_state (snd (get_state dev silent s)) = last_state s"
  by (simp add: get_state_def send_recieve_packet_def split: sum.splits prod.splits)

lemma last_state_brightness [simp]: "last_state (snd (brightness dev level duration s)) = last_state s"
proof (cases "last_state s = []")
  case True
  obtain r s1 where g: "get_state dev False s = (r, s1)" by (cases "get_state dev False s")
  then have "last_state s1 = last_state s" using last_state_get_state [of dev False s] by simp
  then show ?thesis using True g
    by (simp add: brightness_def split: sum.splits)
next
  case False
  then show ?thesis by (simp add: brightness_def split: sum.splits)
qed

lemma last_state_motion [simp]: "last_state (snd (motion dev s)) = last_state s"
proof -
  have "last_state (snd (case brightness dev lv du t of (Some e, s3) \<Rightarrow> (Some e, s3)
          | (None, s3) \<Rightarrow> (None, s3\<lparr>is_active := True\<rparr>))) = last_state t" for lv du t
    using last_state_brightness [of dev lv du t]
    by (cases "brightness dev lv du t") (simp split: option.splits)
  then show ?thesis by (simp add: motion_def Let_def)
qed

lemma last_state_timeout [simp]: "last_state (snd (timeout dev s)) = last_state s"
proof -
  obtain e t where b: "brightness dev dark (fadetime s) (s\<lparr>is_active := False\<rparr>) = (e, t)"
    by (cases "brightness dev dark (fadetime s) (s\<lparr>is_active := False\<rparr>)")
  then have "last_state t = last_state s"
    using last_state_brightness [of dev dark "fadetime s" "s\<lparr>is_active := False\<rparr>"] by simp
  then show ?thesis using b by (simp add: timeout_def Let_def split: option.splits)
qed




lemma get_state_reading:
  "\<exists>q rd. Packet_get_state = Inr q \<and> msgtype q = Inr 101
     \<and> get_state (Inr d) silent s = (Inr rd, s\<lparr>sent := sent s @ [q]\<rparr>) \<and> rd \<noteq> []
     \<and> dict_get rd ''hue'' = Some (int (from_bytes (take 2 (drop 36 (take 255 d)))))
     \<and> dict_get rd ''saturation'' = Some (int (from_bytes (take 2 (drop 38 (take 255 d)))))
     \<and> dict_get rd ''brightness'' = Some (int (from_bytes (take 2 (drop 40 (take 255 d)))))
     \<and> dict_get rd ''kelvin'' = Some (int (from_bytes (take 2 (drop 42 (take 255 d)))))
     \<and> dict_get rd ''power'' = Some (int (from_bytes (take 2 (drop 46 (take 255 d)))))"
proof -
  obtain q rd where a: "Packet_get_state = Inr q" "msgtype q = Inr 101"
    "get_state (Inr d) silent s = (Inr rd, s\<lparr>sent := sent s @ [q]\<rparr>)"
    "rbind (deconstruct (take 255 d) 0 decodemap) (\<lambda>r. Inr (dict r)) = Inr rd"
    using get_state_reply [of d silent s] by (elim exE conjE)
  from decode_reading [of "take 255 d"] a(4)
  have "rd \<noteq> []
     \<and> dict_get rd ''hue'' = Some (int (from_bytes (take 2 (drop 36 (take 255 d)))))
     \<and> dict_get rd ''saturation'' = Some (int (from_bytes (take 2 (drop 38 (take 255 d)))))
     \<and> dict_get rd ''brightness'' = Some (int (from_bytes (take 2 (drop 40 (take 255 d)))))
     \<and> dict_get rd ''kelvin'' = Some (int (from_bytes (take 2 (drop 42 (take 255 d)))))
     \<and> dict_get rd ''power'' = Some (int (from_bytes (take 2 (drop 46 (take 255 d)))))"
    by auto
  with a(1-3) show ?thesis by blast
qed



lemma state_packet:
  assumes "in_range 2 (py_int h)" "in_range 2 (py_int s)" "in_range 2 (py_int b)"
    "in_range 2 (py_int k)" "int_of_float (float_mul d 1000) = Inr ms" "in_range 4 ms"
  shows "\<exists>pkt. Packet_state h s b k d = Inr pkt \<and> msgtype pkt = Inr 102
     \<and> field_value (payload pkt) ''brightness'' = Some (nat (py_int b))
     \<and> field_value (payload pkt) ''duration'' = Some (nat ms)"
proof -
  have m: "from_bytes (le_bytes 2 102) = 102"
    using from_bytes_in_range [of 2 102] by (simp add: in_range_def)
  show ?thesis
    using assms
    by (simp add: Packet_state_in_range [where ms = ms] msgtype_def field_value_def
        from_bytes_in_range m)
qed

lemma reading_colour_ok:
  assumes "dict_get rd ''hue'' = Some (int (from_bytes (take 2 xs)))"
    "dict_get rd ''saturation'' = Some (int (from_bytes (take 2 ys)))"
    "dict_get rd ''kelvin'' = Some (int (from_bytes (take 2 zs)))"
  shows "colour_ok rd"
  using assms from_bytes_2_bound [of xs] from_bytes_2_bound [of ys] from_bytes_2_bound [of zs]
  by (simp add: colour_ok_def in_range_def dict_get_default_def dict_get_def)

lemma brightness_sends:
  assumes "colour_ok state" "in_range 2 (py_int (level * 65535))"
    "int_of_float (float_mul duration 1000) = Inr ms" "in_range 4 ms"
    and "(if last_state s \<noteq> [] then (Inr (last_state s), s) else get_state dev False s) = (Inr state, s1)"
  shows "\<exists>pkt. brightness dev level duration s = (None, s1\<lparr>sent := sent s1 @ [pkt]\<rparr>)
     \<and> msgtype pkt = Inr 102
     \<and> field_value (payload pkt) ''brightness'' = Some (nat (py_int (level * 65535)))
     \<and> field_value (payload pkt) ''duration'' = Some (nat ms)"
proof -
  let ?h = "of_int (dict_get_default state ''hue'' 0) :: rat"
  let ?s = "of_int (dict_get_default state ''saturation'' 0) :: rat"
  let ?k = "of_int (dict_get_default state ''kelvin'' 3500) :: rat"
  have c: "in_range 2 (py_int ?h)" "in_range 2 (py_int ?s)" "in_range 2 (py_int ?k)"
    using assms(1) by (simp_all add: colour_ok_def)
  from state_packet [OF c(1) c(2) assms(2) c(3) assms(3) assms(4)]
  obtain pkt where pkt: "Packet_state ?h ?s (level * 65535) ?k duration = Inr pkt"
    "msgtype pkt = Inr 102"
    "field_value (payload pkt) ''brightness'' = Some (nat (py_int (level * 65535)))"
    "field_value (payload pkt) ''duration'' = Some (nat ms)"
    by (elim exE conjE)
  have "brightness dev level duration s = (None, s1\<lparr>sent := sent s1 @ [pkt]\<rparr>)"
    unfolding brightness_def assms(5) by (simp add: pkt send_packet_def)
  with pkt show ?thesis by blast
qed

text \<open>
  C6. With the controller dimmed (\<open>is_active\<close> false) and a cached state of brightness
  40000 (its colour fields within 16 bits, as every decoded reading has them), a
  motion-detected event sends exactly one packet: a set-color (type 102) whose brightness
  field is 40000 and whose duration field is 100 ms. With no cached state the handler
  first queries the device (type 101) and then sends one set-color whose brightness field
  is 0xFFFF, again over 100 ms.
\<close>

theorem motion_restores_cached_brightness:
  "(\<not> is_active s \<and> dict_get (last_state s) ''brightness'' = Some 40000 \<and> colour_ok (last_state s)
      \<longrightarrow> (\<exists>pkt. fst (motion dev s) = None
             \<and> sent (snd (motion dev s)) = sent s @ [pkt]
             \<and> is_active (snd (motion dev s))
             \<and> msgtype pkt = Inr 102
             \<and> field_value (payload pkt) ''brightness'' = Some 40000
             \<and> field_value (payload pkt) ''duration'' = Some 100))
   \<and> (\<not> is_active s \<and> last_state s = []
      \<longrightarrow> (\<exists>q pkt. fst (motion (Inr reply) s) = None
             \<and> sent (snd (motion (Inr reply) s)) = sent s @ [q, pkt]
             \<and> is_active (snd (motion (Inr reply) s))
             \<and> msgtype q = Inr 101 \<and> msgtype pkt = Inr 102
             \<and> field_value (payload pkt) ''brightness'' = Some 65535
             \<and> field_value (payload pkt) ''duration'' = Some 100))"
proof (intro conjI impI)
  assume a: "\<not> is_active s \<and> dict_get (last_state s) ''brightness'' = Some 40000
    \<and> colour_ok (last_state s)"
  define s2 where "s2 = (let s1 = (if is_alive (fading_timer s)
                then s\<lparr>fading_timer := cancel (fading_timer s)\<rparr> else s)
      in if is_alive (timer s1) then s1\<lparr>timer := cancel (timer s1)\<rparr> else s1)"
  have s2: "last_state s2 = last_state s" "sent s2 = sent s" "is_active s2 = is_active s"
    by (simp_all add: s2_def Let_def)
  have ne: "last_state s2 \<noteq> []" using a s2(1) by (auto simp: dict_get_def)
  have lv: "in_range 2 (py_int (of_int 40000 / 65535 * 65535))"
    by (simp add: in_range_def)
  have ms: "int_of_float (float_mul (1 / 10) 1000) = Inr 100"
    by (rule float_mul_exact_int) simp_all
  have ms4: "in_range 4 100" by (simp add: in_range_def)
  have "(if last_state s2 \<noteq> [] then (Inr (last_state s2), s2) else get_state dev False s2)
        = (Inr (last_state s), s2)"
    using ne s2(1) by simp
  from brightness_sends [OF _ lv ms ms4 this] a
  obtain pkt where pkt: "brightness dev (of_int 40000 / 65535) (1 / 10) s2
      = (None, s2\<lparr>sent := sent s2 @ [pkt]\<rparr>)"
    "msgtype pkt = Inr 102"
    "field_value (payload pkt) ''brightness'' = Some (nat (py_int (of_int 40000 / 65535 * 65535)))"
    "field_value (payload pkt) ''duration'' = Some (nat 100)"
    by blast
  have "motion dev s = (case brightness dev (of_int 40000 / 65535) (1 / 10) s2 of
                          (Some e, s3) \<Rightarrow> (Some e, s3)
                        | (None, s3) \<Rightarrow> (None, s3\<lparr>is_active := True\<rparr>))"
    using a by (simp add: motion_def s2_def Let_def)
  then have m: "motion dev s = (None, s2\<lparr>sent := sent s2 @ [pkt], is_active := True\<rparr>)"
    unfolding pkt(1) by simp
  show "\<exists>pkt. fst (motion dev s) = None
             \<and> sent (snd (motion dev s)) = sent s @ [pkt]
             \<and> is_active (snd (motion dev s))
             \<and> msgtype pkt = Inr 102
             \<and> field_value (payload pkt) ''brightness'' = Some 40000
             \<and> field_value (payload pkt) ''duration'' = Some 100"
    using pkt(2-4) s2(2) by (intro exI [of _ pkt]) (simp add: m)
next
  assume a: "\<not> is_active s \<and> last_state s = []"
  define s2 where "s2 = (let s1 = (if is_alive (fading_timer s)
                then s\<lparr>fading_timer := cancel (fading_timer s)\<rparr> else s)
      in if is_alive (timer s1) then s1\<lparr>timer := cancel (timer s1)\<rparr> else s1)"
  have s2: "last_state s2 = last_state s" "sent s2 = sent s" "is_active s2 = is_active s"
    by (simp_all add: s2_def Let_def)
  from get_state_reading [of reply False s2]
  obtain q rd where g: "msgtype q = Inr 101"
    "get_state (Inr reply) False s2 = (Inr rd, s2\<lparr>sent := sent s2 @ [q]\<rparr>)"
    "dict_get rd ''hue'' = Some (int (from_bytes (take 2 (drop 36 (take 255 reply)))))"
    "dict_get rd ''saturation'' = Some (int (from_bytes (take 2 (drop 38 (take 255 reply)))))"
    "dict_get rd ''kelvin'' = Some (int (from_bytes (take 2 (drop 42 (take 255 reply)))))"
    by (elim exE conjE)
  have c: "colour_ok rd" using reading_colour_ok [OF g(3-5)] .
  have lv: "in_range 2 (py_int (1 * 65535))"
    by (simp add: in_range_def)
  have ms: "int_of_float (float_mul (1 / 10) 1000) = Inr 100"
    by (rule float_mul_exact_int) simp_all
  have ms4: "in_range 4 100" by (simp add: in_range_def)
  have "(if last_state s2 \<noteq> [] then (Inr (last_state s2), s2) else get_state (Inr reply) False s2)
        = (Inr rd, s2\<lparr>sent := sent s2 @ [q]\<rparr>)"
    using a s2(1) g(2) by simp
  from brightness_sends [OF c lv ms ms4 this]
  obtain pkt where pkt: "brightness (Inr reply) 1 (1 / 10) s2
      = (None, s2\<lparr>sent := sent s2 @ [q] @ [pkt]\<rparr>)"
    "msgtype pkt = Inr 102"
    "field_value (payload pkt) ''brightness'' = Some (nat (py_int (1 * 65535)))"
    "field_value (payload pkt) ''duration'' = Some (nat 100)"
    by auto
  have n: "dict_get (last_state s2) ''brightness'' = None"
    using a s2(1) by (simp add: dict_get_def)
  have "motion (Inr reply) s = (case brightness (Inr reply) 1 (1 / 10) s2 of
                          (Some e, s3) \<Rightarrow> (Some e, s3)
                        | (None, s3) \<Rightarrow> (None, s3\<lparr>is_active := True\<rparr>))"
    using a by (simp add: motion_def s2_def Let_def dict_get_def)
  then have m: "motion (Inr reply) s = (None, s2\<lparr>sent := sent s2 @ [q] @ [pkt], is_active := True\<rparr>)"
    unfolding pkt(1) by simp
  show "\<exists>q pkt. fst (motion (Inr reply) s) = None
             \<and> sent (snd (motion (Inr reply) s)) = sent s @ [q, pkt]
             \<and> is_active (snd (motion (Inr reply) s))
             \<and> msgtype q = Inr 101 \<and> msgtype pkt = Inr 102
             \<and> field_value (payload pkt) ''brightness'' = Some 65535
             \<and> field_value (payload pkt) ''duration'' = Some 100"
    using pkt(2-4) s2(2) g(1) by (intro exI [of _ q] exI [of _ pkt]) (simp add: m)
qed


theorem motion_restores_cached_brightness_witness:
  "(\<exists>pkt. sent (snd (motion (Inl Timeout)
        ((Handler_init 300 300)\<lparr>is_active := False,
           last_state := [(''hue'', 120), (''saturation'', 0), (''brightness'', 40000),
                          (''kelvin'', 3500), (''power'', 65535)]\<rparr>))) = [pkt]
       \<and> msgtype pkt = Inr 102
       \<and> field_value (payload pkt) ''brightness'' = Some 40000
       \<and> field_value (payload pkt) ''duration'' = Some 100)
   \<and> (\<exists>q pkt. sent (snd (motion (Inr (replicate 60 0))
        ((Handler_init 300 300)\<lparr>is_active := False\<rparr>))) = [q, pkt]
       \<and> msgtype q = Inr 101 \<and> msgtype pkt = Inr 102
       \<and> field_value (payload pkt) ''brightness'' = Some 65535
       \<and> field_value (payload pkt) ''duration'' = Some 100)"
proof -
  let ?S = "(Handler_init 300 300)\<lparr>is_active := False,
           last_state := [(''hue'', 120), (''saturation'', 0), (''brightness'', 40000),
                          (''kelvin'', 3500), (''power'', 65535)]\<rparr>"
  let ?T = "(Handler_init 300 300)\<lparr>is_active := False\<rparr>"
  have a: "\<not> is_active ?S" "dict_get (last_state ?S) ''brightness'' = Some 40000"
    "colour_ok (last_state ?S)" "sent ?S = []"
    by (simp_all add: Handler_init_def dict_get_def colour_ok_def dict_get_default_def in_range_def)
  have b: "\<not> is_active ?T" "last_state ?T = []" "sent ?T = []"
    by (simp_all add: Handler_init_def)
  have "\<exists>pkt. sent (snd (motion (Inl Timeout) ?S)) = [pkt]
       \<and> msgtype pkt = Inr 102
       \<and> field_value (payload pkt) ''brightness'' = Some 40000
       \<and> field_value (payload pkt) ''duration'' = Some 100"
    using motion_restores_cached_brightness [of ?S "Inl Timeout" "replicate 60 0"] a
    by (simp only: append_Nil) blast
  moreover have "\<exists>q pkt. sent (snd (motion (Inr (replicate 60 0)) ?T)) = [q, pkt]
       \<and> msgtype q = Inr 101 \<and> msgtype pkt = Inr 102
       \<and> field_value (payload pkt) ''brightness'' = Some 65535
       \<and> field_value (payload pkt) ''duration'' = Some 100"
    using motion_restores_cached_brightness [of ?T "Inl Timeout" "replicate 60 0"] b
    by (simp only: append_Nil) blast
  ultimately show ?thesis by (rule conjI)
qed

end
